theory Spec2Isabelle
  imports Complex_Main
begin

section \<open>The resistor network (App)\<close>

text \<open>
  The numbers of the resistor network are React state of type \<open>number\<close>: the source
  value and each resistor's value come from \<open>parseFloat(...) || 0\<close>, so they are never
  NaN, and every division of the network solver is guarded. They are modelled as reals:
  arithmetic is exact, the rounding of IEEE doubles is not modelled.
\<close>

datatype UnitMultiplier = Ohm | kOhm | MOhm

fun multiplier_value :: "UnitMultiplier \<Rightarrow> real" where
  "multiplier_value Ohm = 1"
| "multiplier_value kOhm = 1000"
| "multiplier_value MOhm = 1000000"

record Resistor =
  resistor_id :: string
  resistor_value :: real
  resistor_multiplier :: UnitMultiplier

record CalculatedResistor = Resistor +
  actualResistance :: real
  voltageDrop :: real
  currentFlow :: real
  power :: real
  sharePercentage :: real

datatype CalculationMode =
  Series | Parallel | VoltageDivider | LED | OhmsLaw | RCTime | BatteryLife | ColorCode

datatype InputType = voltage | current

subsection \<open>Editing the resistor list\<close>

text \<open>
  \<open>generateId\<close> is \<open>Math.random().toString(36).substr(2, 9)\<close>: the string it returns is
  an input of the model (\<open>new_id\<close>), nothing makes it differ from an id already in use.
\<close>

definition initial_resistors :: "string \<Rightarrow> string \<Rightarrow> Resistor list" where
  "initial_resistors id1 id2 =
     [\<lparr>resistor_id = id1, resistor_value = 100, resistor_multiplier = Ohm\<rparr>,
      \<lparr>resistor_id = id2, resistor_value = 200, resistor_multiplier = Ohm\<rparr>]"

definition addResistor :: "string \<Rightarrow> Resistor list \<Rightarrow> Resistor list" where
  "addResistor new_id resistors =
     resistors @ [\<lparr>resistor_id = new_id, resistor_value = 100, resistor_multiplier = Ohm\<rparr>]"

definition removeResistor :: "string \<Rightarrow> Resistor list \<Rightarrow> Resistor list" where
  "removeResistor i resistors =
     (if length resistors > 1 then filter (\<lambda>r. resistor_id r \<noteq> i) resistors else resistors)"

text \<open>
  \<open>updateResistor(id, field, value)\<close> is called by the rows with the field \<open>'value'\<close> or
  \<open>'multiplier'\<close> only; the two calls are the two constructors.
\<close>

datatype ResistorEdit = EditValue real | EditMultiplier UnitMultiplier

fun edit_resistor :: "ResistorEdit \<Rightarrow> Resistor \<Rightarrow> Resistor" where
  "edit_resistor (EditValue x) r = r\<lparr>resistor_value := x\<rparr>"
| "edit_resistor (EditMultiplier m) r = r\<lparr>resistor_multiplier := m\<rparr>"

definition updateResistor :: "string \<Rightarrow> ResistorEdit \<Rightarrow> Resistor list \<Rightarrow> Resistor list" where
  "updateResistor i e resistors =
     map (\<lambda>r. if resistor_id r = i then edit_resistor e r else r) resistors"

datatype ListOp = Add string | Remove string | Update string ResistorEdit

fun list_step :: "ListOp \<Rightarrow> Resistor list \<Rightarrow> Resistor list" where
  "list_step (Add new_id) rs = addResistor new_id rs"
| "list_step (Remove i) rs = removeResistor i rs"
| "list_step (Update i e) rs = updateResistor i e rs"

fun list_run :: "ListOp list \<Rightarrow> Resistor list \<Rightarrow> Resistor list" where
  "list_run [] rs = rs"
| "list_run (op # ops) rs = list_run ops (list_step op rs)"

text \<open>The ids in use, and the runs in which every generated id is new when it is generated.\<close>

definition ids_of :: "Resistor list \<Rightarrow> string list" where
  "ids_of rs = map resistor_id rs"

fun fresh_ids :: "ListOp list \<Rightarrow> Resistor list \<Rightarrow> bool" where
  "fresh_ids [] rs = True"
| "fresh_ids (Add new_id # ops) rs =
     (new_id \<notin> set (ids_of rs) \<and> fresh_ids ops (list_step (Add new_id) rs))"
| "fresh_ids (op # ops) rs = fresh_ids ops (list_step op rs)"

subsection \<open>The solver\<close>

record NetworkResults =
  calculatedResistors :: "CalculatedResistor list"
  totalResistance :: real
  totalCurrent :: real
  totalPower :: real
  totalVoltage :: real

definition with_actual :: "Resistor \<Rightarrow> real \<times> Resistor" where
  "with_actual r = (resistor_value r * multiplier_value (resistor_multiplier r), r)"

definition calculated_resistor ::
  "Resistor \<Rightarrow> real \<Rightarrow> real \<Rightarrow> real \<Rightarrow> real \<Rightarrow> real \<Rightarrow> CalculatedResistor" where
  "calculated_resistor r actual vdrop cflow pw share =
     \<lparr>resistor_id = resistor_id r, resistor_value = resistor_value r,
      resistor_multiplier = resistor_multiplier r,
      actualResistance = actual, voltageDrop = vdrop, currentFlow = cflow,
      power = pw, sharePercentage = share\<rparr>"

definition results ::
  "CalculationMode \<Rightarrow> InputType \<Rightarrow> real \<Rightarrow> Resistor list \<Rightarrow> NetworkResults" where
  "results mode inputType sourceValue resistors =
    (if mode \<noteq> Series \<and> mode \<noteq> Parallel then
       \<lparr>calculatedResistors = [], totalResistance = 0, totalCurrent = 0,
        totalPower = 0, totalVoltage = 0\<rparr>
     else
       let rs = map with_actual resistors in
       if mode = Series then
         let totalResistance = foldl (\<lambda>acc r. acc + fst r) 0 rs;
             totalVoltage = (if inputType = voltage then sourceValue
                             else sourceValue * totalResistance);
             totalCurrent = (if inputType = voltage
                             then (if totalResistance > 0 then totalVoltage / totalResistance else 0)
                             else sourceValue);
             calculatedResistors =
               map (\<lambda>r. let voltageDrop = totalCurrent * fst r;
                             power = totalCurrent * totalCurrent * fst r
                         in calculated_resistor (snd r) (fst r) voltageDrop totalCurrent power
                              (if totalVoltage > 0 then (voltageDrop / totalVoltage) * 100 else 0))
                   rs
         in \<lparr>calculatedResistors = calculatedResistors, totalResistance = totalResistance,
             totalCurrent = totalCurrent, totalPower = totalVoltage * totalCurrent,
             totalVoltage = totalVoltage\<rparr>
       else
         let conductance = foldl (\<lambda>acc r. acc + (if fst r > 0 then 1 / fst r else 0)) 0 rs;
             totalResistance = (if conductance > 0 then 1 / conductance else 0);
             totalVoltage = (if inputType = voltage then sourceValue
                             else sourceValue * totalResistance);
             totalCurrent = (if inputType = voltage then totalVoltage * conductance
                             else sourceValue);
             calculatedResistors =
               map (\<lambda>r. let currentFlow = (if fst r > 0 then totalVoltage / fst r else 0);
                             power = totalVoltage * currentFlow
                         in calculated_resistor (snd r) (fst r) totalVoltage currentFlow power
                              (if totalCurrent > 0 then (currentFlow / totalCurrent) * 100 else 0))
                   rs
         in \<lparr>calculatedResistors = calculatedResistors, totalResistance = totalResistance,
             totalCurrent = totalCurrent, totalPower = totalVoltage * totalCurrent,
             totalVoltage = totalVoltage\<rparr>)"

section \<open>JavaScript numbers read from text fields\<close>

text \<open>
  The other calculators keep their inputs as text and read them with \<open>parseFloat\<close>, and
  their divisions are not guarded, so NaN and the infinities are values of the model.
  In the operators \<open>+\<close>, \<open>-\<close>, \<open>*\<close>, \<open>/\<close> of this section a finite number is an exact
  real (the rounding of doubles is added on top of them where the source cuts a result
  to an integer, see the section on binary64 rounding), and there is one zero (a division
  by zero takes its sign from the numerator). A text field is represented by the number
  \<open>parseFloat\<close> reads from it; a blank or non-numeric field is \<open>NaN\<close>.
\<close>

datatype jsnum = Fin real | PInf | NInf | NaN

definition isNaN :: "jsnum \<Rightarrow> bool" where
  "isNaN x = (x = NaN)"

definition inf_times :: "real \<Rightarrow> jsnum" where
  "inf_times a = (if a > 0 then PInf else if a < 0 then NInf else NaN)"

instantiation jsnum :: "{plus, minus, uminus, times, inverse, ord}"
begin

fun uminus_jsnum :: "jsnum \<Rightarrow> jsnum" where
  "uminus_jsnum (Fin a) = Fin (- a)"
| "uminus_jsnum PInf = NInf"
| "uminus_jsnum NInf = PInf"
| "uminus_jsnum NaN = NaN"

fun plus_jsnum :: "jsnum \<Rightarrow> jsnum \<Rightarrow> jsnum" where
  "plus_jsnum (Fin a) (Fin b) = Fin (a + b)"
| "plus_jsnum (Fin a) PInf = PInf"
| "plus_jsnum (Fin a) NInf = NInf"
| "plus_jsnum PInf (Fin b) = PInf"
| "plus_jsnum NInf (Fin b) = NInf"
| "plus_jsnum PInf PInf = PInf"
| "plus_jsnum NInf NInf = NInf"
| "plus_jsnum PInf NInf = NaN"
| "plus_jsnum NInf PInf = NaN"
| "plus_jsnum NaN y = NaN"
| "plus_jsnum x NaN = NaN"

definition minus_jsnum :: "jsnum \<Rightarrow> jsnum \<Rightarrow> jsnum" where
  "minus_jsnum x y = x + (- y)"

fun times_jsnum :: "jsnum \<Rightarrow> jsnum \<Rightarrow> jsnum" where
  "times_jsnum (Fin a) (Fin b) = Fin (a * b)"
| "times_jsnum (Fin a) PInf = inf_times a"
| "times_jsnum (Fin a) NInf = inf_times (- a)"
| "times_jsnum PInf (Fin b) = inf_times b"
| "times_jsnum NInf (Fin b) = inf_times (- b)"
| "times_jsnum PInf PInf = PInf"
| "times_jsnum NInf NInf = PInf"
| "times_jsnum PInf NInf = NInf"
| "times_jsnum NInf PInf = NInf"
| "times_jsnum NaN y = NaN"
| "times_jsnum x NaN = NaN"

fun divide_jsnum :: "jsnum \<Rightarrow> jsnum \<Rightarrow> jsnum" where
  "divide_jsnum (Fin a) (Fin b) = (if b = 0 then inf_times a else Fin (a / b))"
| "divide_jsnum (Fin a) PInf = Fin 0"
| "divide_jsnum (Fin a) NInf = Fin 0"
| "divide_jsnum PInf (Fin b) = (if b \<ge> 0 then PInf else NInf)"
| "divide_jsnum NInf (Fin b) = (if b \<ge> 0 then NInf else PInf)"
| "divide_jsnum PInf PInf = NaN"
| "divide_jsnum NInf NInf = NaN"
| "divide_jsnum PInf NInf = NaN"
| "divide_jsnum NInf PInf = NaN"
| "divide_jsnum NaN y = NaN"
| "divide_jsnum x NaN = NaN"

definition inverse_jsnum :: "jsnum \<Rightarrow> jsnum" where
  "inverse_jsnum x = divide (Fin 1) x"

fun less_jsnum :: "jsnum \<Rightarrow> jsnum \<Rightarrow> bool" where
  "less_jsnum (Fin a) (Fin b) = (a < b)"
| "less_jsnum (Fin a) PInf = True"
| "less_jsnum NInf (Fin b) = True"
| "less_jsnum NInf PInf = True"
| "less_jsnum x y = False"

definition less_eq_jsnum :: "jsnum \<Rightarrow> jsnum \<Rightarrow> bool" where
  "less_eq_jsnum x y = (x < y \<or> (x = y \<and> x \<noteq> NaN))"

instance ..

end

text \<open>\<open>x === y\<close> on numbers: NaN equals nothing.\<close>

definition js_eq :: "jsnum \<Rightarrow> jsnum \<Rightarrow> bool" where
  "js_eq x y = (x = y \<and> x \<noteq> NaN)"

fun js_abs :: "jsnum \<Rightarrow> jsnum" where
  "js_abs (Fin a) = Fin \<bar>a\<bar>"
| "js_abs PInf = PInf"
| "js_abs NInf = PInf"
| "js_abs NaN = NaN"

fun js_sqrt :: "jsnum \<Rightarrow> jsnum" where
  "js_sqrt (Fin a) = (if a < 0 then NaN else Fin (sqrt a))"
| "js_sqrt PInf = PInf"
| "js_sqrt NInf = NaN"
| "js_sqrt NaN = NaN"

fun js_log :: "jsnum \<Rightarrow> jsnum" where
  "js_log (Fin a) = (if a < 0 then NaN else if a = 0 then NInf else Fin (ln a))"
| "js_log PInf = PInf"
| "js_log NInf = NaN"
| "js_log NaN = NaN"

fun js_exp :: "jsnum \<Rightarrow> jsnum" where
  "js_exp (Fin a) = Fin (exp a)"
| "js_exp PInf = PInf"
| "js_exp NInf = Fin 0"
| "js_exp NaN = NaN"

fun js_floor :: "jsnum \<Rightarrow> jsnum" where
  "js_floor (Fin a) = Fin (of_int \<lfloor>a\<rfloor>)"
| "js_floor x = x"

text \<open>\<open>Math.round\<close> rounds a tie towards plus infinity.\<close>

fun js_round :: "jsnum \<Rightarrow> jsnum" where
  "js_round (Fin a) = Fin (of_int \<lfloor>a + 1 / 2\<rfloor>)"
| "js_round x = x"

text \<open>\<open>x % y\<close>: the remainder has the sign of the dividend (the quotient is truncated).\<close>

definition js_trunc :: "real \<Rightarrow> int" where
  "js_trunc x = (if x \<ge> 0 then \<lfloor>x\<rfloor> else \<lceil>x\<rceil>)"

fun js_mod :: "jsnum \<Rightarrow> jsnum \<Rightarrow> jsnum" where
  "js_mod (Fin a) (Fin b) = (if b = 0 then NaN else Fin (a - b * of_int (js_trunc (a / b))))"
| "js_mod (Fin a) PInf = Fin a"
| "js_mod (Fin a) NInf = Fin a"
| "js_mod x y = NaN"

text \<open>
  \<open>x.toFixed(n)\<close>, as the number its text denotes (what \<open>parseFloat\<close> reads back from it):
  the magnitude is rounded to \<open>n\<close> decimals, a tie to the larger magnitude; from
  \<open>10^21\<close> on the text is that of the number itself; the texts \<open>Infinity\<close> and \<open>NaN\<close> read
  back as themselves.
\<close>

definition round_decimals :: "nat \<Rightarrow> real \<Rightarrow> real" where
  "round_decimals n x = sgn x * of_int \<lfloor>\<bar>x\<bar> * 10 ^ n + 1 / 2\<rfloor> / 10 ^ n"

fun toFixed :: "nat \<Rightarrow> jsnum \<Rightarrow> jsnum" where
  "toFixed n (Fin a) = Fin (if \<bar>a\<bar> \<ge> 10 ^ 21 then a else round_decimals n a)"
| "toFixed n x = x"

section \<open>Binary64 rounding\<close>

text \<open>
  Where a result is cut by \<open>Math.floor\<close> or \<open>Math.round\<close>, the last bit of a double
  decides what is printed, so there the arithmetic of the source is modelled bit for bit:
  every number is a binary64 value and every \<open>*\<close>, \<open>/\<close> and \<open>-\<close> rounds its exact result
  to the nearest binary64 value, a tie to the even significand, with the subnormal range
  below \<open>2^-1022\<close> and overflow to an infinity from \<open>2^1024\<close> on. \<open>parseFloat\<close> rounds the
  decimal it reads in the same way. The binary exponent of a positive real is found by
  repeated halving or doubling.
\<close>

function exp2_up :: "real \<Rightarrow> nat" where
  "exp2_up x = (if x < 2 then 0 else Suc (exp2_up (x / 2)))"
  by pat_completeness auto
termination
proof (relation "measure (\<lambda>x. nat \<lfloor>x\<rfloor>)")
  show "wf (measure (\<lambda>x::real. nat \<lfloor>x\<rfloor>))" by simp
next
  fix x :: real
  assume "\<not> x < 2"
  then have "x / 2 \<le> x - 1" by simp
  then have "\<lfloor>x / 2\<rfloor> \<le> \<lfloor>x - 1\<rfloor>" by (rule floor_mono)
  also have "\<dots> = \<lfloor>x\<rfloor> - 1" using floor_diff_of_int [of x 1] by simp
  finally have "\<lfloor>x / 2\<rfloor> < \<lfloor>x\<rfloor>" by simp
  moreover from \<open>\<not> x < 2\<close> have "0 < \<lfloor>x\<rfloor>" by simp
  ultimately show "(x / 2, x) \<in> measure (\<lambda>x. nat \<lfloor>x\<rfloor>)" by simp
qed

declare exp2_up.simps [simp del]

function exp2_down :: "real \<Rightarrow> nat" where
  "exp2_down x = (if 0 < x \<and> x < 1 then Suc (exp2_down (x * 2)) else 0)"
  by pat_completeness auto
termination
proof (relation "measure (\<lambda>x. nat \<lceil>1 / x\<rceil>)")
  show "wf (measure (\<lambda>x::real. nat \<lceil>1 / x\<rceil>))" by simp
next
  fix x :: real
  assume "0 < x \<and> x < 1"
  then have x: "0 < x" "x < 1" by simp_all
  define k where "k = \<lceil>1 / x\<rceil>"
  from x have "1 < 1 / x" by simp
  then have two: "2 \<le> k" unfolding k_def by linarith
  have "1 / x \<le> of_int k" unfolding k_def by linarith
  then have "1 / (x * 2) \<le> of_int k / 2" by simp
  also have "\<dots> \<le> of_int (k - 1)"
  proof -
    from two have "2 \<le> real_of_int k" by simp
    then have "real_of_int k / 2 \<le> real_of_int k - 1" by linarith
    then show ?thesis by simp
  qed
  finally have "1 / (x * 2) \<le> of_int (k - 1)" .
  then have "\<lceil>1 / (x * 2)\<rceil> \<le> k - 1" by (rule ceiling_le)
  with two have "nat \<lceil>1 / (x * 2)\<rceil> < nat k" by linarith
  then show "(x * 2, x) \<in> measure (\<lambda>x. nat \<lceil>1 / x\<rceil>)"
    unfolding k_def by (simp only: in_measure)
qed

declare exp2_down.simps [simp del]

definition exponent2 :: "real \<Rightarrow> int" where
  "exponent2 x = (if x \<ge> 1 then int (exp2_up x) else - int (exp2_down x))"

definition round_half_even :: "real \<Rightarrow> int" where
  "round_half_even y =
     (let f = \<lfloor>y\<rfloor>; d = y - of_int f
      in if d < 1 / 2 then f else if d > 1 / 2 then f + 1 else if even f then f else f + 1)"

text \<open>The nearest binary64 value of a real, as a real (its exponent not bounded above).\<close>

definition fl :: "real \<Rightarrow> real" where
  "fl x =
     (if x = 0 then 0
      else let e = max (exponent2 \<bar>x\<bar>) (- 1022);
               ulp = 2 powi (e - 52)
           in of_int (round_half_even (x / ulp)) * ulp)"

definition round64 :: "real \<Rightarrow> jsnum" where
  "round64 x =
     (let y = fl x in if \<bar>y\<bar> \<ge> 2 ^ 1024 then (if y > 0 then PInf else NInf) else Fin y)"

fun dbl :: "jsnum \<Rightarrow> jsnum" where
  "dbl (Fin a) = round64 a"
| "dbl x = x"

text \<open>The operators of the source on doubles: the exact result, rounded.\<close>

definition js_times :: "jsnum \<Rightarrow> jsnum \<Rightarrow> jsnum" where
  "js_times x y = dbl (x * y)"

definition js_divide :: "jsnum \<Rightarrow> jsnum \<Rightarrow> jsnum" where
  "js_divide x y = dbl (x / y)"

definition js_minus :: "jsnum \<Rightarrow> jsnum \<Rightarrow> jsnum" where
  "js_minus x y = dbl (x - y)"

section \<open>The Ohm's-law calculator (OhmsLawCalculator)\<close>

record OhmsState =
  ohms_v :: jsnum
  ohms_i :: jsnum
  ohms_r :: jsnum
  ohms_p :: jsnum

datatype OhmsKey = Key_v | Key_i | Key_r | Key_p

text \<open>
  The two messages of the component: \<open>NeedTwoParams\<close> is set when \<open>inputCount !== 2\<close>,
  \<open>CalcError\<close> in the \<open>catch\<close> block. Number arithmetic and \<open>toFixed(4)\<close> do not throw,
  so no branch of the model returns \<open>CalcError\<close>.
\<close>

datatype OhmsError = NeedTwoParams | CalcError

text \<open>An entry of \<open>inputs\<close> is \<open>undefined\<close> (\<open>None\<close>) when the field does not parse.\<close>

definition parsed_input :: "jsnum \<Rightarrow> jsnum option" where
  "parsed_input x = (if isNaN x then None else Some x)"

definition inputCount :: "OhmsState \<Rightarrow> nat" where
  "inputCount values =
     length (filter (\<lambda>x. \<not> isNaN x) [ohms_v values, ohms_i values, ohms_r values, ohms_p values])"

text \<open>The six pairings, in the order of the \<open>if\<close> chain; the last case is no pairing.\<close>

fun ohms_pairing ::
  "jsnum option \<Rightarrow> jsnum option \<Rightarrow> jsnum option \<Rightarrow> jsnum option \<Rightarrow>
   jsnum option \<times> jsnum option \<times> jsnum option \<times> jsnum option \<times> OhmsKey list" where
  "ohms_pairing (Some v) (Some i) r p =
     (Some v, Some i, Some (v / i), Some (v * i), [Key_r, Key_p])"
| "ohms_pairing (Some v) i (Some r) p =
     (Some v, Some (v / r), Some r, Some ((v * v) / r), [Key_i, Key_p])"
| "ohms_pairing (Some v) i r (Some p) =
     (Some v, Some (p / v), Some ((v * v) / p), Some p, [Key_i, Key_r])"
| "ohms_pairing v (Some i) (Some r) p =
     (Some (i * r), Some i, Some r, Some (i * i * r), [Key_v, Key_p])"
| "ohms_pairing v (Some i) r (Some p) =
     (Some (p / i), Some i, Some (p / (i * i)), Some p, [Key_v, Key_r])"
| "ohms_pairing v i (Some r) (Some p) =
     (Some (js_sqrt (p * r)), Some (js_sqrt (p / r)), Some r, Some p, [Key_v, Key_i])"
| "ohms_pairing v i r p = (v, i, r, p, [])"

text \<open>
  \<open>if (x !== undefined) newValues.k = parseFloat(x.toFixed(4)).toString()\<close>: the field
  then reads as \<open>x\<close> rounded to 4 decimals.
\<close>

definition redisplay :: "jsnum option \<Rightarrow> jsnum \<Rightarrow> jsnum" where
  "redisplay x old = (case x of Some y \<Rightarrow> toFixed 4 y | None \<Rightarrow> old)"

definition calculate_ohms :: "OhmsState \<Rightarrow> OhmsError + (OhmsState \<times> OhmsKey list)" where
  "calculate_ohms values =
     (if inputCount values \<noteq> 2 then Inl NeedTwoParams
      else
        case ohms_pairing (parsed_input (ohms_v values)) (parsed_input (ohms_i values))
                          (parsed_input (ohms_r values)) (parsed_input (ohms_p values))
        of (v, i, r, p, calculated) \<Rightarrow>
          Inr (\<lparr>ohms_v = redisplay v (ohms_v values), ohms_i = redisplay i (ohms_i values),
                ohms_r = redisplay r (ohms_r values), ohms_p = redisplay p (ohms_p values)\<rparr>,
               calculated))"

text \<open>
  \<open>y\<close> is \<open>x\<close> rounded to \<open>n\<close> decimals: within half a unit of the last decimal, and
  a whole number of such units (below \<open>10^21\<close>, where \<open>toFixed\<close> rounds).
\<close>

definition rounded_to :: "nat \<Rightarrow> real \<Rightarrow> real \<Rightarrow> bool" where
  "rounded_to n x y =
     (\<bar>y - x\<bar> \<le> 1 / (2 * 10 ^ n) \<and> (\<bar>x\<bar> < 10 ^ 21 \<longrightarrow> of_int \<lfloor>y * 10 ^ n\<rfloor> = y * 10 ^ n))"

section \<open>The voltage divider (VoltageDivider)\<close>

record DividerState =
  divider_vin :: jsnum
  divider_ra :: jsnum
  divider_rb :: jsnum
  divider_vout :: jsnum

datatype DividerField = Field_vin | Field_ra | Field_rb | Field_vout

text \<open>The messages of \<open>setError\<close>, in the order they appear in \<open>calculate\<close>.\<close>

datatype DividerError =
  NeedThreeValues | ResistorSumZero | VoutZero | VinEqualsVout | NegativeRa
  | VinEqualsVoutDenominator | NegativeRb | RbZero

text \<open>
  The component's state, and the setter calls \<open>calculate\<close> makes: the model returns the
  calls in the order of the source and \<open>perform\<close> applies them.
\<close>

record DividerComponent =
  divider_values :: DividerState
  calculatedField :: "DividerField option"
  divider_error :: "DividerError option"

datatype DividerCall =
  SetError DividerError | SetValue DividerField jsnum | SetCalculatedField DividerField

definition divider_calculate :: "DividerState \<Rightarrow> DividerCall list" where
  "divider_calculate values =
    (let vin = divider_vin values; ra = divider_ra values;
         rb = divider_rb values; vout = divider_vout values;
         validInputs = filter (\<lambda>v. \<not> isNaN v) [vin, ra, rb, vout]
     in
     if length validInputs \<noteq> 3 then [SetError NeedThreeValues]
     else if isNaN vout then
       (if js_eq (ra + rb) (Fin 0) then [SetError ResistorSumZero]
        else let res = vin * (rb / (ra + rb))
             in [SetValue Field_vout (toFixed 3 res), SetCalculatedField Field_vout])
     else if isNaN ra then
       (if js_eq vout (Fin 0) then [SetError VoutZero]
        else if js_abs (vin - vout) < Fin 0.000001 then [SetError VinEqualsVout]
        else let res = rb * (vin / vout - Fin 1)
             in if res < Fin 0 then [SetError NegativeRa]
                else [SetValue Field_ra (toFixed 3 res), SetCalculatedField Field_ra])
     else if isNaN rb then
       (if js_eq vin vout then [SetError VinEqualsVoutDenominator]
        else let res = (vout * ra) / (vin - vout)
             in if res < Fin 0 then [SetError NegativeRb]
                else [SetValue Field_rb (toFixed 3 res), SetCalculatedField Field_rb])
     else if isNaN vin then
       (if js_eq rb (Fin 0) then [SetError RbZero]
        else let res = vout * (ra + rb) / rb
             in [SetValue Field_vin (toFixed 3 res), SetCalculatedField Field_vin])
     else [])"

fun set_field :: "DividerField \<Rightarrow> jsnum \<Rightarrow> DividerState \<Rightarrow> DividerState" where
  "set_field Field_vin x values = values\<lparr>divider_vin := x\<rparr>"
| "set_field Field_ra x values = values\<lparr>divider_ra := x\<rparr>"
| "set_field Field_rb x values = values\<lparr>divider_rb := x\<rparr>"
| "set_field Field_vout x values = values\<lparr>divider_vout := x\<rparr>"

fun perform :: "DividerCall \<Rightarrow> DividerComponent \<Rightarrow> DividerComponent" where
  "perform (SetError e) st = st\<lparr>divider_error := Some e\<rparr>"
| "perform (SetValue f x) st = st\<lparr>divider_values := set_field f x (divider_values st)\<rparr>"
| "perform (SetCalculatedField f) st = st\<lparr>calculatedField := Some f\<rparr>"

definition calculate_divider :: "DividerComponent \<Rightarrow> DividerComponent" where
  "calculate_divider st = fold perform (divider_calculate (divider_values st)) st"

text \<open>A solve reports an error when one of its calls is \<open>setError\<close>.\<close>

fun is_SetError :: "DividerCall \<Rightarrow> bool" where
  "is_SetError (SetError e) = True"
| "is_SetError c = False"

definition reports_error :: "DividerState \<Rightarrow> bool" where
  "reports_error values = list_ex is_SetError (divider_calculate values)"

section \<open>The RC calculator (RCCalculator)\<close>

text \<open>
  The unit multipliers are numbers chosen in a \<open>select\<close> (the table \<open>UNITS\<close>) or computed as
  the best unit of a derived value: finite, so reals.
\<close>

subsection \<open>Filter mode\<close>

record RCState =
  rc_r :: jsnum
  rc_rUnit :: real
  rc_c :: jsnum
  rc_cUnit :: real
  rc_f :: jsnum
  rc_fUnit :: real

record FilterResult =
  filter_tau :: jsnum
  filter_fc :: jsnum

text \<open>
  The messages of \<open>calculateFilter\<close>: frequency 0, capacitance 0, and the last \<open>else\<close>,
  which asks for any 2 parameters (the verdict the specification calls InsufficientInputs).
\<close>

datatype FilterError = FrequencyZero | CapacitanceZero | InsufficientInputs

definition js_pi :: jsnum where
  "js_pi = Fin pi"

definition calculateFilter :: "RCState \<Rightarrow> FilterError + (RCState \<times> FilterResult)" where
  "calculateFilter values =
    (let rVal = rc_r values; cVal = rc_c values; fVal = rc_f values;
         r = (if \<not> isNaN rVal then rVal * Fin (rc_rUnit values) else NaN);
         c = (if \<not> isNaN cVal then cVal * Fin (rc_cUnit values) else NaN);
         f = (if \<not> isNaN fVal then fVal * Fin (rc_fUnit values) else NaN)
     in
     if \<not> isNaN r \<and> \<not> isNaN c then
       let tau = r * c;
           fc = Fin 1 / (Fin 2 * js_pi * r * c);
           bestFUnit = (if fc \<ge> Fin 1000000 then 1000000 else if fc \<ge> Fin 1000 then 1000 else 1)
       in Inr (values\<lparr>rc_f := toFixed 2 (fc / Fin bestFUnit), rc_fUnit := bestFUnit\<rparr>,
               \<lparr>filter_tau = tau, filter_fc = fc\<rparr>)
     else if \<not> isNaN r \<and> \<not> isNaN f then
       if js_eq f (Fin 0) then Inl FrequencyZero
       else
         let cCalc = Fin 1 / (Fin 2 * js_pi * r * f);
             tau = r * cCalc;
             bestCUnit = (if cCalc < Fin (1 / 10 ^ 9) then 1 / 10 ^ 12
                          else if cCalc < Fin (1 / 10 ^ 6) then 1 / 10 ^ 9
                          else if cCalc < Fin (1 / 10 ^ 3) then 1 / 10 ^ 6
                          else 1 / 10 ^ 3)
         in Inr (values\<lparr>rc_c := toFixed 2 (cCalc / Fin bestCUnit), rc_cUnit := bestCUnit\<rparr>,
                 \<lparr>filter_tau = tau, filter_fc = f\<rparr>)
     else if \<not> isNaN c \<and> \<not> isNaN f then
       if js_eq f (Fin 0) then Inl FrequencyZero
       else if js_eq c (Fin 0) then Inl CapacitanceZero
       else
         let rCalc = Fin 1 / (Fin 2 * js_pi * c * f);
             tau = rCalc * c;
             bestRUnit = (if rCalc \<ge> Fin 1000000 then 1000000 else if rCalc \<ge> Fin 1000 then 1000 else 1)
         in Inr (values\<lparr>rc_r := toFixed 2 (rCalc / Fin bestRUnit), rc_rUnit := bestRUnit\<rparr>,
                 \<lparr>filter_tau = tau, filter_fc = f\<rparr>)
     else Inl InsufficientInputs)"

text \<open>The number of the three value fields that parse.\<close>

definition supplied :: "RCState \<Rightarrow> nat" where
  "supplied values = length (filter (\<lambda>x. \<not> isNaN x) [rc_r values, rc_c values, rc_f values])"

subsection \<open>Delay mode\<close>

record DelayState =
  delay_vin :: jsnum
  delay_vtarget :: jsnum
  delay_r :: jsnum
  delay_rUnit :: real
  delay_c :: jsnum
  delay_cUnit :: real
  delay_t :: jsnum
  delay_tUnit :: real

record DelayResult =
  result_t :: jsnum
  result_tau :: jsnum

text \<open>The messages of \<open>calculateDelay\<close>, in the order of the source.\<close>

datatype DelayError = MissingVin | MissingRC | TargetNotBelowSupply | TargetNotPositive

definition calculateDelay :: "DelayState \<Rightarrow> DelayError + (DelayState \<times> DelayResult)" where
  "calculateDelay delayValues =
    (let vin = delay_vin delayValues;
         vtarget = delay_vtarget delayValues;
         r = delay_r delayValues * Fin (delay_rUnit delayValues);
         c = delay_c delayValues * Fin (delay_cUnit delayValues);
         t = delay_t delayValues * Fin (delay_tUnit delayValues);
         hasR = (\<not> isNaN r \<and> r > Fin 0);
         hasC = (\<not> isNaN c \<and> c > Fin 0);
         hasVin = (\<not> isNaN vin);
         hasTarget = (\<not> isNaN vtarget);
         hasTime = (\<not> isNaN t \<and> t > Fin 0)
     in
     if \<not> hasVin then Inl MissingVin
     else if \<not> hasR \<or> \<not> hasC then Inl MissingRC
     else
       let tau = r * c in
       if hasTarget \<and> \<not> hasTime then
         if vtarget \<ge> vin then Inl TargetNotBelowSupply
         else if vtarget \<le> Fin 0 then Inl TargetNotPositive
         else
           let ratio = vtarget / vin;
               timeCalc = (- tau) * js_log (Fin 1 - ratio);
               bestTUnit = (if timeCalc < Fin (1 / 10 ^ 3) then 1 / 10 ^ 6
                            else if timeCalc < Fin 1 then 1 / 10 ^ 3 else 1)
           in Inr (delayValues\<lparr>delay_t := toFixed 3 (timeCalc / Fin bestTUnit),
                                 delay_tUnit := bestTUnit\<rparr>,
                   \<lparr>result_t = timeCalc, result_tau = tau\<rparr>)
       else if hasTime then
         let vCalc = vin * (Fin 1 - js_exp ((- t) / tau))
         in Inr (delayValues\<lparr>delay_vtarget := toFixed 3 vCalc\<rparr>,
                 \<lparr>result_t = t, result_tau = tau\<rparr>)
       else Inr (delayValues, \<lparr>result_t = tau, result_tau = tau\<rparr>))"

section \<open>The battery-life calculator (BatteryLifeCalculator)\<close>

text \<open>
  The two text fields are represented by the decimal typed into them (\<open>NaN\<close> when
  \<open>parseFloat\<close> reads no number) and \<open>efficiency\<close>, number state set by a range slider (0.5
  to 1.0), by the decimal of the slider; \<open>calculate\<close> works on the doubles nearest to them,
  with the arithmetic of doubles (\<open>%\<close>, \<open>Math.floor\<close> and \<open>Math.round\<close> are exact on
  doubles). The result string is kept in its parts: the pieces of \<open>resString\<close> in order,
  each with the number printed before its label (days, hours, minutes), and
  \<open>totalHours\<close>, the text of \<open>hours.toFixed(1)\<close>, as the number it denotes.
\<close>

record BatteryInputs =
  capacity :: jsnum
  battery_current :: jsnum
  efficiency :: real

datatype DurationPart = Days jsnum | Hours jsnum | Minutes jsnum

record BatteryResult =
  resString :: "DurationPart list"
  totalHours :: jsnum

text \<open>\<open>None\<close> is the early \<open>return\<close>: \<open>setResult\<close> is not called.\<close>

definition calculate_battery :: "BatteryInputs \<Rightarrow> BatteryResult option" where
  "calculate_battery inputs =
    (let cap = dbl (capacity inputs); curr = dbl (battery_current inputs);
         efficiency = round64 (efficiency inputs)
     in
     if isNaN cap \<or> isNaN curr \<or> js_eq curr (Fin 0) then None
     else
       let hours = js_divide (js_times cap efficiency) curr;
           days = js_floor (js_divide hours (Fin 24));
           remHours = js_floor (js_mod hours (Fin 24));
           minutes = js_round (js_times (js_minus hours (js_floor hours)) (Fin 60))
       in Some \<lparr>resString = (if days > Fin 0 then [Days days] else [])
                             @ (if remHours > Fin 0 then [Hours remHours] else [])
                             @ [Minutes minutes],
                 totalHours = toFixed 1 hours\<rparr>)"

section \<open>Number formatting (App)\<close>

text \<open>
  The two formatters of \<open>App\<close> take numbers of the resistor network, so reals, and return
  strings. The texts of \<open>toLocaleString\<close> and \<open>toExponential\<close> are built as ECMAScript
  describes them, from the exact real value.
\<close>

definition digit_char :: "nat \<Rightarrow> char" where
  "digit_char d = ''0123456789'' ! d"

fun digits_of :: "nat \<Rightarrow> string" where
  "digits_of n = (if n < 10 then [digit_char n] else digits_of (n div 10) @ [digit_char (n mod 10)])"

declare digits_of.simps [simp del]

text \<open>The grouping of \<open>en-US\<close>: a comma before every group of three digits.\<close>

fun group_thousands :: "string \<Rightarrow> string" where
  "group_thousands ds =
     (if length ds \<le> 3 then ds
      else group_thousands (take (length ds - 3) ds) @ '','' @ drop (length ds - 3) ds)"

declare group_thousands.simps [simp del]

text \<open>The three digits of \<open>n\<close> thousandths, without the trailing zeros.\<close>

definition fraction_digits :: "nat \<Rightarrow> string" where
  "fraction_digits n =
     rev (dropWhile (\<lambda>c. c = CHR ''0'')
       (rev [digit_char (n div 100 mod 10), digit_char (n div 10 mod 10), digit_char (n mod 10)]))"

text \<open>
  \<open>x.toLocaleString('en-US', { maximumFractionDigits: 3 })\<close>: the magnitude rounded to
  thousandths, a tie away from zero.
\<close>

definition toLocaleString :: "real \<Rightarrow> string" where
  "toLocaleString x =
     (let n = nat \<lfloor>\<bar>x\<bar> * 1000 + 1 / 2\<rfloor>;
          frac = fraction_digits (n mod 1000)
      in (if x < 0 then ''-'' else '''') @ group_thousands (digits_of (n div 1000))
         @ (if frac = [] then [] else ''.'' @ frac))"

text \<open>The characters after the decimal point of a text.\<close>

definition decimals_of :: "string \<Rightarrow> string" where
  "decimals_of s = drop 1 (dropWhile (\<lambda>c. c \<noteq> CHR ''.'') s)"

text \<open>
  \<open>x.toExponential(f)\<close> for \<open>x \<noteq> 0\<close> takes the integers \<open>n\<close> and \<open>e\<close> with
  \<open>10^f \<le> n < 10^(f+1)\<close> for which \<open>n * 10^(e - f)\<close> is closest to \<open>x\<close>, the larger of two.
  The decimal exponent of a positive real is found by repeated division or
  multiplication by 10.
\<close>

function exp10_up :: "real \<Rightarrow> nat" where
  "exp10_up x = (if x < 10 then 0 else Suc (exp10_up (x / 10)))"
  by pat_completeness auto
termination
proof (relation "measure (\<lambda>x. nat \<lfloor>x\<rfloor>)")
  show "wf (measure (\<lambda>x::real. nat \<lfloor>x\<rfloor>))" by simp
next
  fix x :: real
  assume "\<not> x < 10"
  then have "x / 10 \<le> x - 9" by simp
  then have "\<lfloor>x / 10\<rfloor> \<le> \<lfloor>x - 9\<rfloor>" by (rule floor_mono)
  also have "\<dots> = \<lfloor>x\<rfloor> - 9" using floor_diff_of_int [of x 9] by simp
  finally have "\<lfloor>x / 10\<rfloor> < \<lfloor>x\<rfloor>" by simp
  moreover from \<open>\<not> x < 10\<close> have "0 < \<lfloor>x\<rfloor>" by simp
  ultimately show "(x / 10, x) \<in> measure (\<lambda>x. nat \<lfloor>x\<rfloor>)" by simp
qed

declare exp10_up.simps [simp del]

function exp10_down :: "real \<Rightarrow> nat" where
  "exp10_down x = (if 0 < x \<and> x < 1 then Suc (exp10_down (x * 10)) else 0)"
  by pat_completeness auto
termination
proof (relation "measure (\<lambda>x. nat \<lceil>1 / x\<rceil>)")
  show "wf (measure (\<lambda>x::real. nat \<lceil>1 / x\<rceil>))" by simp
next
  fix x :: real
  assume "0 < x \<and> x < 1"
  then have x: "0 < x" "x < 1" by simp_all
  then have "1 < 1 / x" by simp
  then have two: "2 \<le> \<lceil>1 / x\<rceil>" by linarith
  have "1 / x \<le> of_int \<lceil>1 / x\<rceil>" by linarith
  then have "1 / (x * 10) \<le> of_int \<lceil>1 / x\<rceil> / 10" by simp
  also have "\<dots> \<le> of_int (\<lceil>1 / x\<rceil> - 1)"
  proof -
    define k where "k = \<lceil>1 / x\<rceil>"
    from two have "2 \<le> real_of_int k" unfolding k_def by simp
    then have "real_of_int k / 10 \<le> real_of_int k - 1" by linarith
    then show ?thesis unfolding k_def by simp
  qed
  finally have "1 / (x * 10) \<le> of_int (\<lceil>1 / x\<rceil> - 1)" .
  then have "\<lceil>1 / (x * 10)\<rceil> \<le> \<lceil>1 / x\<rceil> - 1" by (rule ceiling_le)
  with two have "nat \<lceil>1 / (x * 10)\<rceil> < nat \<lceil>1 / x\<rceil>" by linarith
  then show "(x * 10, x) \<in> measure (\<lambda>x. nat \<lceil>1 / x\<rceil>)" by (simp only: in_measure)
qed

declare exp10_down.simps [simp del]

definition exponent10 :: "real \<Rightarrow> int" where
  "exponent10 x = (if x \<ge> 1 then int (exp10_up x) else - int (exp10_down x))"

definition exp_parts :: "nat \<Rightarrow> real \<Rightarrow> nat \<times> int" where
  "exp_parts f x =
     (let e = exponent10 x;
          n = nat \<lfloor>x / 10 powi (e - int f) + 1 / 2\<rfloor>
      in if n = 10 ^ (f + 1) then (10 ^ f, e + 1) else (n, e))"

definition exp_text :: "nat \<Rightarrow> bool \<Rightarrow> string \<Rightarrow> int \<Rightarrow> string" where
  "exp_text f negative m e =
     (if negative then ''-'' else '''')
     @ (if f = 0 then m else take 1 m @ ''.'' @ drop 1 m)
     @ ''e'' @ (if e \<ge> 0 then ''+'' else ''-'') @ digits_of (nat \<bar>e\<bar>)"

definition toExponential :: "nat \<Rightarrow> real \<Rightarrow> string" where
  "toExponential f x =
     (if x = 0 then exp_text f False (replicate (f + 1) (CHR ''0'')) 0
      else case exp_parts f \<bar>x\<bar> of (n, e) \<Rightarrow> exp_text f (x < 0) (digits_of n) e)"

definition formatNumber :: "real \<Rightarrow> string" where
  "formatNumber num =
     (if num = 0 then ''0''
      else if \<bar>num\<bar> < 0.001 \<or> \<bar>num\<bar> > 10000 then toExponential 3 num
      else toLocaleString num)"

text \<open>
  \<open>formatUnit\<close>: the \<open>if\<close> chain that scales the value and picks the suffix, then the
  template string. The suffix \<open>\<mu>\<close> is the one code unit \<open>0xB5\<close>.
\<close>

definition micro :: string where
  "micro = [CHR 0xB5]"

definition formatUnit_scale :: "real \<Rightarrow> real \<times> string" where
  "formatUnit_scale num =
     (if num \<ge> 1000000 then (num / 1000000, ''M'')
      else if num \<ge> 1000 then (num / 1000, ''k'')
      else if num < 1 \<and> num > 0 then
        (if num < 0.000001 then (num * 1000000000, ''n'')
         else if num < 0.001 then (num * 1000000, micro)
         else (num * 1000, ''m''))
      else (num, ''''))"

definition formatUnit :: "real \<Rightarrow> string \<Rightarrow> string" where
  "formatUnit num unit =
     (case formatUnit_scale num of
        (value, suffix) \<Rightarrow> toLocaleString value @ '' '' @ suffix @ unit)"

text \<open>
  For comparison with the specification: its list of SI prefixes with their factors
  (n, \<open>\<mu>\<close>, m, none, k, M, G), the prefixes the code has (the same without G), the largest
  prefix of a list that leaves a mantissa of at least 1, and exponential notation with a
  number of significant digits (one digit before the point, the others after it).
\<close>

definition spec_si_prefixes :: "(string \<times> real) list" where
  "spec_si_prefixes =
     [(''n'', 1 / 10 ^ 9), (micro, 1 / 10 ^ 6), (''m'', 1 / 10 ^ 3), ('''', 1),
      (''k'', 10 ^ 3), (''M'', 10 ^ 6), (''G'', 10 ^ 9)]"

definition code_prefixes :: "(string \<times> real) list" where
  "code_prefixes = butlast spec_si_prefixes"

definition spec_largest_prefix :: "(string \<times> real) list \<Rightarrow> real \<Rightarrow> string \<times> real \<Rightarrow> bool" where
  "spec_largest_prefix ps v p =
     (p \<in> set ps \<and> v / snd p \<ge> 1 \<and> (\<forall>q \<in> set ps. v / snd q \<ge> 1 \<longrightarrow> snd q \<le> snd p))"

definition spec_significant_digits :: "nat \<Rightarrow> real \<Rightarrow> string" where
  "spec_significant_digits k x = toExponential (k - 1) x"

section \<open>Properties of the resistor network\<close>

lemma foldl_add_sum_list:
  "foldl (\<lambda>acc r. acc + f r) (a::real) xs = a + sum_list (map f xs)"
  by (induction xs arbitrary: a) simp_all

lemma series_drop_sum:
  "sum_list (map voltageDrop (calculatedResistors (results Series ty src rs)))
     = totalCurrent (results Series ty src rs) * totalResistance (results Series ty src rs)"
  by (simp add: results_def Let_def foldl_add_sum_list calculated_resistor_def comp_def
      sum_list_const_mult)


lemma filter_drops_at_most_one:
  "distinct (map f xs) \<Longrightarrow> length xs \<le> Suc (length (filter (\<lambda>r. f r \<noteq> i) xs))"
proof (induction xs)
  case Nil
  then show ?case by simp
next
  case (Cons x xs)
  show ?case
  proof (cases "f x = i")
    case True
    with Cons.prems have "\<forall>r \<in> set xs. f r \<noteq> i" by (auto simp: image_iff)
    then have "filter (\<lambda>r. f r \<noteq> i) xs = xs" by simp
    with True show ?thesis by simp
  next
    case False
    with Cons show ?thesis by simp
  qed
qed

lemma ids_of_updateResistor: "ids_of (updateResistor i e rs) = ids_of rs"
  by (induction rs) (auto simp: ids_of_def updateResistor_def, (cases e; simp)+)

lemma removeResistor_keeps_one:
  assumes "rs \<noteq> []" "distinct (ids_of rs)"
  shows "removeResistor i rs \<noteq> []"
proof (cases "length rs > 1")
  case True
  from assms(2) have "length rs \<le> Suc (length (filter (\<lambda>r. resistor_id r \<noteq> i) rs))"
    unfolding ids_of_def by (rule filter_drops_at_most_one)
  with True have "0 < length (filter (\<lambda>r. resistor_id r \<noteq> i) rs)" by linarith
  with True show ?thesis by (auto simp: removeResistor_def)
next
  case False
  with assms(1) show ?thesis by (simp add: removeResistor_def)
qed

lemma removeResistor_distinct: "distinct (ids_of rs) \<Longrightarrow> distinct (ids_of (removeResistor i rs))"
  by (simp add: removeResistor_def ids_of_def distinct_map_filter)

lemma list_run_invariant:
  "rs \<noteq> [] \<Longrightarrow> distinct (ids_of rs) \<Longrightarrow> fresh_ids ops rs \<Longrightarrow>
     list_run ops rs \<noteq> [] \<and> distinct (ids_of (list_run ops rs))"
proof (induction ops arbitrary: rs)
  case Nil
  then show ?case by simp
next
  case (Cons op ops)
  show ?case
  proof (cases op)
    case (Add new_id)
    with Cons.prems have "new_id \<notin> set (ids_of rs)" and f: "fresh_ids ops (addResistor new_id rs)"
      by simp_all
    with Cons.prems(2) have "distinct (ids_of (addResistor new_id rs))"
      by (simp add: addResistor_def ids_of_def)
    moreover have "addResistor new_id rs \<noteq> []" by (simp add: addResistor_def)
    ultimately show ?thesis using Cons.IH f Add by simp
  next
    case (Remove i)
    with Cons.prems have f: "fresh_ids ops (removeResistor i rs)" by simp
    from Cons.prems have "removeResistor i rs \<noteq> []" by (simp add: removeResistor_keeps_one)
    moreover from Cons.prems have "distinct (ids_of (removeResistor i rs))"
      by (simp add: removeResistor_distinct)
    ultimately show ?thesis using Cons.IH f Remove by simp
  next
    case (Update i e)
    with Cons.prems have f: "fresh_ids ops (updateResistor i e rs)" by simp
    from Cons.prems have "updateResistor i e rs \<noteq> []" by (simp add: updateResistor_def)
    moreover from Cons.prems have "distinct (ids_of (updateResistor i e rs))"
      by (simp add: ids_of_updateResistor)
    ultimately show ?thesis using Cons.IH f Update by simp
  qed
qed

text \<open>
  Claim C9, as amended. Starting from the initial two-resistor list, every sequence of
  \<open>addResistor\<close>, \<open>removeResistor\<close> and \<open>updateResistor\<close> leaves the list non-empty,
  provided the two initial ids differ and every id generated by an \<open>addResistor\<close> is
  not in use at that moment.
\<close>

theorem resistor_list_nonempty:
  assumes "id1 \<noteq> id2" and "fresh_ids ops (initial_resistors id1 id2)"
  shows "list_run ops (initial_resistors id1 id2) \<noteq> []"
proof -
  have "initial_resistors id1 id2 \<noteq> []" by (simp add: initial_resistors_def)
  moreover from assms(1) have "distinct (ids_of (initial_resistors id1 id2))"
    by (simp add: initial_resistors_def ids_of_def)
  ultimately show ?thesis using assms(2) list_run_invariant by blast
qed

theorem resistor_list_nonempty_witness:
  "''a'' \<noteq> ''b''
   \<and> fresh_ids [Remove ''a'', Remove ''b'', Add ''c'', Update ''c'' (EditValue 0)] (initial_resistors ''a'' ''b'')
   \<and> list_run [Remove ''a'', Remove ''b'', Add ''c'', Update ''c'' (EditValue 0)] (initial_resistors ''a'' ''b'') \<noteq> []"
  using resistor_list_nonempty [of "''a''" "''b''" "[Remove ''a'', Remove ''b'', Add ''c'', Update ''c'' (EditValue 0)]"]
  by (simp add: initial_resistors_def ids_of_def addResistor_def removeResistor_def updateResistor_def)

text \<open>
  Claim C9 as stated fails when \<open>generateId\<close> returns the same string twice:
  \<open>removeResistor\<close> sees two resistors, so it filters, and the filter drops both.
\<close>

theorem resistor_list_empty_counterexample:
  "list_run [Remove ''i''] (initial_resistors ''i'' ''i'') = []"
  by (simp add: initial_resistors_def removeResistor_def)

text \<open>
  Claim C1 as stated fails when the total resistance is not positive (the two value
  fields cleared, so both values are 0): the guard \<open>totalResistance > 0\<close> makes the
  current 0, every drop is 0, and the reported total voltage is still the source value.
\<close>

theorem series_voltage_counterexample:
  "sum_list (map voltageDrop (calculatedResistors (results Series voltage 10
      [\<lparr>resistor_id = ''a'', resistor_value = 0, resistor_multiplier = Ohm\<rparr>,
       \<lparr>resistor_id = ''b'', resistor_value = 0, resistor_multiplier = Ohm\<rparr>]))) = 0
   \<and> totalVoltage (results Series voltage 10
      [\<lparr>resistor_id = ''a'', resistor_value = 0, resistor_multiplier = Ohm\<rparr>,
       \<lparr>resistor_id = ''b'', resistor_value = 0, resistor_multiplier = Ohm\<rparr>]) = 10"
  by (simp add: results_def with_actual_def calculated_resistor_def)

text \<open>
  Claim C1, as amended. In series mode with a voltage source, every \<open>currentFlow\<close> is the
  reported total current and the reported total voltage is the source value; the voltage
  drops sum to the total voltage when the total resistance is positive; when it is not,
  the total current and every voltage drop are 0. (Exact real arithmetic stands for the
  claim's floating-point tolerance.)
\<close>

theorem series_voltage_drops:
  fixes src :: real and rs :: "Resistor list"
  defines "res \<equiv> results Series voltage src rs"
  shows "(\<forall>c \<in> set (calculatedResistors res). currentFlow c = totalCurrent res)
       \<and> totalVoltage res = src
       \<and> (0 < totalResistance res \<longrightarrow>
            sum_list (map voltageDrop (calculatedResistors res)) = totalVoltage res)
       \<and> (totalResistance res \<le> 0 \<longrightarrow>
            totalCurrent res = 0 \<and> (\<forall>c \<in> set (calculatedResistors res). voltageDrop c = 0))"
proof -
  have flows: "\<forall>c \<in> set (calculatedResistors res). currentFlow c = totalCurrent res"
    by (auto simp: res_def results_def Let_def calculated_resistor_def)
  have tv: "totalVoltage res = src"
    by (simp add: res_def results_def Let_def)
  have cur: "totalCurrent res = (if 0 < totalResistance res then src / totalResistance res else 0)"
    by (simp add: res_def results_def Let_def)
  have sum: "sum_list (map voltageDrop (calculatedResistors res))
               = totalCurrent res * totalResistance res"
    unfolding res_def by (rule series_drop_sum)
  have pos: "0 < totalResistance res \<longrightarrow>
            sum_list (map voltageDrop (calculatedResistors res)) = totalVoltage res"
    using sum cur tv by simp
  have drops: "\<forall>c \<in> set (calculatedResistors res). \<exists>a. voltageDrop c = totalCurrent res * a"
    by (auto simp: res_def results_def Let_def calculated_resistor_def)
  have zero: "totalResistance res \<le> 0 \<longrightarrow>
            totalCurrent res = 0 \<and> (\<forall>c \<in> set (calculatedResistors res). voltageDrop c = 0)"
    using cur drops by auto
  from flows tv pos zero show ?thesis by blast
qed

theorem series_voltage_drops_witness:
  "0 < totalResistance (results Series voltage 10 (initial_resistors ''a'' ''b''))
   \<and> sum_list (map voltageDrop (calculatedResistors (results Series voltage 10 (initial_resistors ''a'' ''b'')))) = 10
   \<and> map currentFlow (calculatedResistors (results Series voltage 10 (initial_resistors ''a'' ''b''))) = [1/30, 1/30]
   \<and> totalCurrent (results Series voltage 10 (initial_resistors ''a'' ''b'')) = 1/30
   \<and> totalResistance (results Series voltage 10
        [\<lparr>resistor_id = ''a'', resistor_value = 0, resistor_multiplier = Ohm\<rparr>]) \<le> 0
   \<and> map voltageDrop (calculatedResistors (results Series voltage 10
        [\<lparr>resistor_id = ''a'', resistor_value = 0, resistor_multiplier = Ohm\<rparr>])) = [0]"
  using series_voltage_drops [of 10 "initial_resistors ''a'' ''b''"]
    series_voltage_drops [of 10 "[\<lparr>resistor_id = ''a'', resistor_value = 0, resistor_multiplier = Ohm\<rparr>]"]
  by (simp add: results_def with_actual_def calculated_resistor_def initial_resistors_def Let_def)

section \<open>Properties of the voltage divider\<close>

lemma divider_calculate_shape:
  "(\<exists>e. divider_calculate values = [SetError e])
   \<or> (\<exists>f x. divider_calculate values = [SetValue f x, SetCalculatedField f])
   \<or> divider_calculate values = []"
  by (simp add: divider_calculate_def Let_def)

text \<open>
  Claim C7. Whenever the voltage-divider solve reports an error (any \<open>setError\<close> call:
  wrong input count, zero denominator, Vin equal to Vout, negative derived resistance),
  the four stored field values are left exactly as they were, and so is the mark of the
  derived field.
\<close>

theorem divider_error_atomic:
  assumes "reports_error (divider_values st)"
  shows "divider_values (calculate_divider st) = divider_values st
       \<and> calculatedField (calculate_divider st) = calculatedField st"
proof -
  from divider_calculate_shape [of "divider_values st"] assms
  obtain e where "divider_calculate (divider_values st) = [SetError e]"
    by (auto simp: reports_error_def)
  then show ?thesis by (simp add: calculate_divider_def)
qed

theorem divider_error_atomic_witness:
  "reports_error \<lparr>divider_vin = Fin 5, divider_ra = NaN, divider_rb = Fin 1000, divider_vout = Fin 5\<rparr>
   \<and> divider_values (calculate_divider
        \<lparr>divider_values = \<lparr>divider_vin = Fin 5, divider_ra = NaN, divider_rb = Fin 1000, divider_vout = Fin 5\<rparr>,
         calculatedField = None, divider_error = None\<rparr>)
       = \<lparr>divider_vin = Fin 5, divider_ra = NaN, divider_rb = Fin 1000, divider_vout = Fin 5\<rparr>
   \<and> divider_error (calculate_divider
        \<lparr>divider_values = \<lparr>divider_vin = Fin 5, divider_ra = NaN, divider_rb = Fin 1000, divider_vout = Fin 5\<rparr>,
         calculatedField = None, divider_error = None\<rparr>) = Some VinEqualsVout"
  using divider_error_atomic [of
        "\<lparr>divider_values = \<lparr>divider_vin = Fin 5, divider_ra = NaN, divider_rb = Fin 1000, divider_vout = Fin 5\<rparr>,
         calculatedField = None, divider_error = None\<rparr>"]
  by (simp add: reports_error_def divider_calculate_def calculate_divider_def isNaN_def js_eq_def minus_jsnum_def)

section \<open>Properties of the Ohm's-law calculator\<close>

lemma inputCount_two_cases:
  "inputCount values = 2 \<Longrightarrow>
     (\<exists>v i r p c. ohms_pairing (parsed_input (ohms_v values)) (parsed_input (ohms_i values))
                          (parsed_input (ohms_r values)) (parsed_input (ohms_p values)) = (Some v, Some i, Some r, Some p, c) \<and> length c = 2)"
  by (auto simp: inputCount_def parsed_input_def isNaN_def split: if_splits)

text \<open>
  Claim C10. When exactly V and I are supplied and I is 0, the solver raises no error:
  the division \<open>v / i\<close> is not guarded, the derived R is not finite (an infinity with
  the sign of V when V is not 0, NaN when V is 0) and is written back into the fields
  with P; the only verdict the solver ever reaches is the one for an input count other
  than 2.
\<close>

theorem ohms_zero_current:
  assumes "v \<noteq> NaN"
  shows "calculate_ohms \<lparr>ohms_v = v, ohms_i = Fin 0, ohms_r = NaN, ohms_p = NaN\<rparr>
           = Inr (\<lparr>ohms_v = toFixed 4 v, ohms_i = Fin 0, ohms_r = v / Fin 0,
                   ohms_p = toFixed 4 (v * Fin 0)\<rparr>, [Key_r, Key_p])
       \<and> v / Fin 0 = (if v = Fin 0 then NaN else if Fin 0 < v then PInf else NInf)
       \<and> (\<forall>values. (calculate_ohms values = Inl NeedTwoParams \<longleftrightarrow> inputCount values \<noteq> 2)
                    \<and> calculate_ohms values \<noteq> Inl CalcError)"
proof -
  have quot: "v / Fin 0 = (if v = Fin 0 then NaN else if Fin 0 < v then PInf else NInf)"
    using assms by (cases v) (auto simp: inf_times_def)
  then have fixd: "toFixed 4 (v / Fin 0) = v / Fin 0"
    by (auto split: if_splits)
  have "calculate_ohms \<lparr>ohms_v = v, ohms_i = Fin 0, ohms_r = NaN, ohms_p = NaN\<rparr>
           = Inr (\<lparr>ohms_v = toFixed 4 v, ohms_i = Fin 0, ohms_r = v / Fin 0,
                   ohms_p = toFixed 4 (v * Fin 0)\<rparr>, [Key_r, Key_p])"
    using assms fixd
    by (simp add: calculate_ohms_def inputCount_def isNaN_def parsed_input_def redisplay_def
        round_decimals_def)
  moreover have "\<forall>values. (calculate_ohms values = Inl NeedTwoParams \<longleftrightarrow> inputCount values \<noteq> 2)
                    \<and> calculate_ohms values \<noteq> Inl CalcError"
    by (auto simp: calculate_ohms_def split: prod.splits)
  ultimately show ?thesis using quot by blast
qed

theorem ohms_zero_current_witness:
  "Fin 5 \<noteq> NaN
   \<and> calculate_ohms \<lparr>ohms_v = Fin 5, ohms_i = Fin 0, ohms_r = NaN, ohms_p = NaN\<rparr>
       = Inr (\<lparr>ohms_v = Fin 5, ohms_i = Fin 0, ohms_r = PInf, ohms_p = Fin 0\<rparr>, [Key_r, Key_p])"
  using ohms_zero_current [of "Fin 5"]
  by (simp add: inf_times_def round_decimals_def)

text \<open>
  Claim C5 as stated fails when the rounding to 4 decimals changes a derived value:
  V = 0.001 and I = 100 give R = 0.00001, redisplayed as 0; from R = 0 and P = 0.1 the
  second solve gives V = 0 and I = Infinity.
\<close>

theorem ohms_roundtrip_counterexample:
  "calculate_ohms \<lparr>ohms_v = Fin 0.001, ohms_i = Fin 100, ohms_r = NaN, ohms_p = NaN\<rparr>
     = Inr (\<lparr>ohms_v = Fin 0.001, ohms_i = Fin 100, ohms_r = Fin 0, ohms_p = Fin 0.1\<rparr>,
            [Key_r, Key_p])
   \<and> calculate_ohms \<lparr>ohms_v = NaN, ohms_i = NaN, ohms_r = Fin 0, ohms_p = Fin 0.1\<rparr>
     = Inr (\<lparr>ohms_v = Fin 0, ohms_i = PInf, ohms_r = Fin 0, ohms_p = Fin 0.1\<rparr>,
            [Key_v, Key_i])"
  by (simp add: calculate_ohms_def inputCount_def isNaN_def parsed_input_def redisplay_def
        round_decimals_def inf_times_def)

lemma round_decimals_close: "\<bar>round_decimals n x - x\<bar> \<le> 1 / (2 * 10 ^ n)"
proof -
  define y where "y = \<bar>x\<bar> * 10 ^ n"
  have half: "\<bar>of_int \<lfloor>y + 1 / 2\<rfloor> - y\<bar> \<le> 1 / 2" by linarith
  have "of_int \<lfloor>y + 1 / 2\<rfloor> / 10 ^ n - \<bar>x\<bar> = (of_int \<lfloor>y + 1 / 2\<rfloor> - y) / 10 ^ n"
    by (simp add: y_def diff_divide_distrib)
  then have "\<bar>of_int \<lfloor>y + 1 / 2\<rfloor> / 10 ^ n - \<bar>x\<bar>\<bar> = \<bar>of_int \<lfloor>y + 1 / 2\<rfloor> - y\<bar> / 10 ^ n"
    by simp
  also have "\<dots> \<le> (1 / 2) / 10 ^ n"
    using half by (rule divide_right_mono) simp
  finally have close: "\<bar>of_int \<lfloor>y + 1 / 2\<rfloor> / 10 ^ n - \<bar>x\<bar>\<bar> \<le> 1 / (2 * 10 ^ n)"
    by simp
  have "\<bar>round_decimals n x - x\<bar> = \<bar>of_int \<lfloor>y + 1 / 2\<rfloor> / 10 ^ n - \<bar>x\<bar>\<bar>"
  proof (cases "x < 0")
    case True
    then have "round_decimals n x - x = - (of_int \<lfloor>y + 1 / 2\<rfloor> / 10 ^ n - \<bar>x\<bar>)"
      by (simp add: round_decimals_def y_def)
    then show ?thesis by simp
  next
    case False
    then show ?thesis
      by (cases "x = 0") (simp_all add: round_decimals_def y_def)
  qed
  with close show ?thesis by simp
qed

lemma round_decimals_whole: "of_int \<lfloor>round_decimals n x * 10 ^ n\<rfloor> = round_decimals n x * 10 ^ n"
proof -
  define k where "k = \<lfloor>\<bar>x\<bar> * 10 ^ n + 1 / 2\<rfloor>"
  have "round_decimals n x * 10 ^ n = sgn x * of_int k"
    by (simp add: round_decimals_def k_def)
  also have "\<dots> = of_int ((if x < 0 then - 1 else if x = 0 then 0 else 1) * k)"
    by (simp add: sgn_if)
  finally show ?thesis by (simp only: floor_of_int)
qed

lemma toFixed_rounded: "\<exists>y. toFixed n (Fin x) = Fin y \<and> rounded_to n x y"
proof (cases "\<bar>x\<bar> \<ge> 10 ^ 21")
  case True
  then show ?thesis by (simp add: rounded_to_def)
next
  case False
  then have "toFixed n (Fin x) = Fin (round_decimals n x)" by simp
  moreover have "rounded_to n x (round_decimals n x)"
    using round_decimals_close [of n x] round_decimals_whole [of n x]
    by (simp add: rounded_to_def)
  ultimately show ?thesis by blast
qed

lemma round_decimals_idem: "round_decimals n (round_decimals n x) = round_decimals n x"
proof -
  define k where "k = \<lfloor>\<bar>x\<bar> * 10 ^ n + 1 / 2\<rfloor>"
  have k0: "0 \<le> k"
  proof -
    have "0 \<le> \<bar>x\<bar> * 10 ^ n + 1 / 2" by simp
    then show ?thesis unfolding k_def by (simp only: zero_le_floor)
  qed
  have y: "round_decimals n x = sgn x * of_int k / 10 ^ n"
    by (simp add: round_decimals_def k_def)
  show ?thesis
  proof (cases "x = 0 \<or> k = 0")
    case True
    then have z: "round_decimals n x = 0" using y by auto
    have "round_decimals n 0 = 0" by (simp add: round_decimals_def)
    then show ?thesis unfolding z .
  next
    case False
    then have x: "x \<noteq> 0" and k: "0 < k" using k0 by auto
    have abs: "\<bar>round_decimals n x\<bar> = of_int k / 10 ^ n"
      using x k unfolding y by (simp add: abs_mult sgn_if)
    have sg: "sgn (round_decimals n x) = sgn x"
      using x k unfolding y by (simp add: sgn_if zero_less_mult_iff field_simps)
    have "\<lfloor>\<bar>round_decimals n x\<bar> * 10 ^ n + 1 / 2\<rfloor> = \<lfloor>of_int k + (1 / 2 :: real)\<rfloor>"
      unfolding abs by simp
    also have "\<dots> = k" by linarith
    finally have "round_decimals n (round_decimals n x) = sgn x * of_int k / 10 ^ n"
      unfolding round_decimals_def [of n "round_decimals n x"] sg by simp
    with y show ?thesis by simp
  qed
qed

lemma toFixed_idem: "toFixed n (toFixed n x) = toFixed n x"
proof (cases x)
  case (Fin a)
  then show ?thesis by (simp add: round_decimals_idem)
qed simp_all


lemma sqrt_between:
  fixes x lo hi :: real
  assumes "0 \<le> lo" and "lo\<^sup>2 \<le> x" and "x \<le> hi\<^sup>2" and "0 \<le> hi"
  shows "lo \<le> sqrt x \<and> sqrt x \<le> hi"
proof -
  have "sqrt (lo\<^sup>2) \<le> sqrt x" using assms(2) by (simp only: real_sqrt_le_iff)
  then have "lo \<le> sqrt x" using assms(1) by simp
  moreover have "sqrt x \<le> sqrt (hi\<^sup>2)" using assms(3) by (simp only: real_sqrt_le_iff)
  then have "sqrt x \<le> hi" using assms(4) by simp
  ultimately show ?thesis by simp
qed

lemma roundtrip_bounds:
  fixes V I R P eps :: real
  assumes V: "0 < V" and I: "0 < I"
    and eps: "0 < eps" "eps < 1"
    and R: "\<bar>R - V / I\<bar> \<le> eps * (V / I)"
    and P: "\<bar>P - V * I\<bar> \<le> eps * (V * I)"
  shows "0 < R" and "0 < P"
    and "\<bar>sqrt (P * R) - V\<bar> \<le> eps * V"
    and "\<bar>sqrt (P / R) - I\<bar> \<le> eps / (1 - eps) * I"
proof -
  define a where "a = V / I"
  define b where "b = V * I"
  define lo where "lo = 1 - eps"
  define hi where "hi = 1 + eps"
  have a: "0 < a" and b: "0 < b" using V I by (simp_all add: a_def b_def)
  have lo: "0 < lo" "lo \<le> 1" and hi: "0 < hi" using eps by (simp_all add: lo_def hi_def)
  have lohi: "lo * hi \<le> 1"
  proof -
    have "lo * hi = 1 - eps * eps" by (simp add: lo_def hi_def algebra_simps)
    moreover have "0 \<le> eps * eps" by simp
    ultimately show ?thesis by linarith
  qed
  have ab: "a * b = V * V" and ba: "b = I * I * a" using I by (simp_all add: a_def b_def)
  have Rb: "lo * a \<le> R" "R \<le> hi * a"
  proof -
    have "lo * a = a - eps * a" "hi * a = a + eps * a" by (simp_all add: lo_def hi_def algebra_simps)
    with R show "lo * a \<le> R" "R \<le> hi * a" unfolding a_def [symmetric] by linarith+
  qed
  have Pb: "lo * b \<le> P" "P \<le> hi * b"
  proof -
    have "lo * b = b - eps * b" "hi * b = b + eps * b" by (simp_all add: lo_def hi_def algebra_simps)
    with P show "lo * b \<le> P" "P \<le> hi * b" unfolding b_def [symmetric] by linarith+
  qed
  have loa: "0 < lo * a" and lob: "0 < lo * b" using lo a b by simp_all
  show Rpos: "0 < R" using loa Rb(1) by linarith
  show Ppos: "0 < P" using lob Pb(1) by linarith
  have "(lo * b) * (lo * a) \<le> P * R"
    using Pb(1) Rb(1) loa lob by (intro mult_mono) simp_all
  moreover have "(lo * b) * (lo * a) = (lo * V)\<^sup>2"
    using ab by (simp add: power2_eq_square algebra_simps)
  ultimately have PRlo: "(lo * V)\<^sup>2 \<le> P * R" by simp
  have "P * R \<le> (hi * b) * (hi * a)"
    using Pb(2) Rb(2) Rpos Ppos hi a b by (intro mult_mono) simp_all
  moreover have "(hi * b) * (hi * a) = (hi * V)\<^sup>2"
    using ab by (simp add: power2_eq_square algebra_simps)
  ultimately have PRhi: "P * R \<le> (hi * V)\<^sup>2" by simp
  have "lo * V \<le> sqrt (P * R) \<and> sqrt (P * R) \<le> hi * V"
    using PRlo PRhi lo hi V by (intro sqrt_between) simp_all
  moreover have "lo * V = V - eps * V" "hi * V = V + eps * V"
    by (simp_all add: lo_def hi_def algebra_simps)
  ultimately show "\<bar>sqrt (P * R) - V\<bar> \<le> eps * V" by linarith
  have q_lo: "(lo * I)\<^sup>2 \<le> P / R"
  proof -
    have "(lo * I)\<^sup>2 * R \<le> (lo * I)\<^sup>2 * (hi * a)"
      using Rb(2) by (intro mult_left_mono) simp_all
    also have "\<dots> = (lo * hi) * (lo * b)"
      unfolding ba by (simp add: power2_eq_square algebra_simps)
    also have "\<dots> \<le> 1 * (lo * b)"
      using lohi lob by (intro mult_right_mono) simp_all
    also have "\<dots> \<le> P" using Pb(1) by simp
    finally have "(lo * I)\<^sup>2 * R \<le> P" .
    then show ?thesis using Rpos by (simp add: pos_le_divide_eq)
  qed
  have q_hi: "P / R \<le> (I / lo)\<^sup>2"
  proof -
    have "P * lo\<^sup>2 \<le> (hi * b) * lo\<^sup>2"
      using Pb(2) by (intro mult_right_mono) simp_all
    also have "\<dots> = (lo * hi) * (lo * b)"
      by (simp add: power2_eq_square algebra_simps)
    also have "\<dots> \<le> 1 * (lo * b)"
      using lohi lob by (intro mult_right_mono) simp_all
    also have "\<dots> = I\<^sup>2 * (lo * a)"
      unfolding ba by (simp add: power2_eq_square algebra_simps)
    also have "\<dots> \<le> I\<^sup>2 * R"
      using Rb(1) by (intro mult_left_mono) simp_all
    finally have "P * lo\<^sup>2 \<le> I\<^sup>2 * R" .
    then have "P / R \<le> I\<^sup>2 / lo\<^sup>2"
      using Rpos lo(1) by (simp add: field_simps)
    then show ?thesis by (simp add: power_divide)
  qed
  have "lo * I \<le> sqrt (P / R) \<and> sqrt (P / R) \<le> I / lo"
    using q_lo q_hi lo I by (intro sqrt_between) simp_all
  moreover have "lo * I = I - eps * I" by (simp add: lo_def algebra_simps)
  moreover have "I / lo = I + eps / (1 - eps) * I"
    using lo(1) unfolding lo_def by (simp add: field_simps)
  moreover have "eps * I \<le> eps / (1 - eps) * I"
  proof -
    have "eps * 1 \<le> eps * (1 / (1 - eps))"
      using eps lo unfolding lo_def by (intro mult_left_mono) (simp_all add: field_simps)
    then have "eps \<le> eps / (1 - eps)" by simp
    then show ?thesis using I by (intro mult_right_mono) simp_all
  qed
  ultimately show "\<bar>sqrt (P / R) - I\<bar> \<le> eps / (1 - eps) * I" by linarith
qed


lemma ohms_first_solve:
  assumes "0 < V" and "0 < I"
  shows "calculate_ohms \<lparr>ohms_v = Fin V, ohms_i = Fin I, ohms_r = NaN, ohms_p = NaN\<rparr>
           = Inr (\<lparr>ohms_v = toFixed 4 (Fin V), ohms_i = toFixed 4 (Fin I),
                   ohms_r = toFixed 4 (Fin (V / I)), ohms_p = toFixed 4 (Fin (V * I))\<rparr>,
                  [Key_r, Key_p])"
  using assms
  by (simp add: calculate_ohms_def inputCount_def isNaN_def parsed_input_def redisplay_def
       del: toFixed.simps)

lemma ohms_second_solve:
  assumes "0 < R" and "0 < P"
  shows "calculate_ohms \<lparr>ohms_v = NaN, ohms_i = NaN, ohms_r = Fin R, ohms_p = Fin P\<rparr>
           = Inr (\<lparr>ohms_v = toFixed 4 (Fin (sqrt (P * R))), ohms_i = toFixed 4 (Fin (sqrt (P / R))),
                   ohms_r = toFixed 4 (Fin R), ohms_p = toFixed 4 (Fin P)\<rparr>,
                  [Key_v, Key_i])"
proof -
  have "R \<noteq> 0" "\<not> P * R < 0" "\<not> P / R < 0" using assms by (simp_all add: not_less)
  then show ?thesis
    by (simp add: calculate_ohms_def inputCount_def isNaN_def parsed_input_def redisplay_def
         del: toFixed.simps)
qed

text \<open>
  Claim C5, as amended. For positive V and I whose quotient and product both exceed
  0.00005 (so that neither is redisplayed as 0), the solver given exactly (V, I) stores
  R and P as \<open>V / I\<close> and \<open>V * I\<close> rounded to 4 decimals, and the solver given exactly that
  (R, P) stores V' and I', the roots of \<open>P * R\<close> and \<open>P / R\<close> rounded to 4 decimals, with
  \<open>|V' - V| \<le> eps * V + 0.00005\<close> and \<open>|I' - I| \<le> eps / (1 - eps) * I + 0.00005\<close>, where
  \<open>eps\<close> is 0.00005 divided by the smaller of \<open>V / I\<close> and \<open>V * I\<close>. The statement does not
  fix which of two nearest 4-decimal values is written at a tie.
\<close>

theorem ohms_roundtrip:
  fixes V I :: real
  defines "eps \<equiv> (1 / 20000) / min (V / I) (V * I)"
  assumes V: "0 < V" and I: "0 < I"
    and quotient: "1 / 20000 < V / I" and product: "1 / 20000 < V * I"
  shows "\<exists>R P V' I'.
           calculate_ohms \<lparr>ohms_v = Fin V, ohms_i = Fin I, ohms_r = NaN, ohms_p = NaN\<rparr>
             = Inr (\<lparr>ohms_v = toFixed 4 (Fin V), ohms_i = toFixed 4 (Fin I),
                     ohms_r = Fin R, ohms_p = Fin P\<rparr>, [Key_r, Key_p])
         \<and> rounded_to 4 (V / I) R \<and> rounded_to 4 (V * I) P
         \<and> calculate_ohms \<lparr>ohms_v = NaN, ohms_i = NaN, ohms_r = Fin R, ohms_p = Fin P\<rparr>
             = Inr (\<lparr>ohms_v = Fin V', ohms_i = Fin I', ohms_r = Fin R, ohms_p = Fin P\<rparr>,
                    [Key_v, Key_i])
         \<and> rounded_to 4 (sqrt (P * R)) V' \<and> rounded_to 4 (sqrt (P / R)) I'
         \<and> \<bar>V' - V\<bar> \<le> eps * V + 1 / 20000
         \<and> \<bar>I' - I\<bar> \<le> eps / (1 - eps) * I + 1 / 20000"
proof -
  obtain R where R: "toFixed 4 (Fin (V / I)) = Fin R" "rounded_to 4 (V / I) R"
    using toFixed_rounded by blast
  obtain P where P: "toFixed 4 (Fin (V * I)) = Fin P" "rounded_to 4 (V * I) P"
    using toFixed_rounded by blast
  obtain V' where V': "toFixed 4 (Fin (sqrt (P * R))) = Fin V'" "rounded_to 4 (sqrt (P * R)) V'"
    using toFixed_rounded by blast
  obtain I' where I': "toFixed 4 (Fin (sqrt (P / R))) = Fin I'" "rounded_to 4 (sqrt (P / R)) I'"
    using toFixed_rounded by blast
  define m where "m = min (V / I) (V * I)"
  have m: "1 / 20000 < m" "m \<le> V / I" "m \<le> V * I"
    using quotient product by (simp_all add: m_def)
  have eps: "eps = (1 / 20000) / m" by (simp add: eps_def m_def)
  have eps_pos: "0 < eps" and eps_less: "eps < 1" using m(1) by (simp_all add: eps)
  have half: "1 / 20000 = eps * m" using m(1) by (simp add: eps)
  have "eps * m \<le> eps * (V / I)" "eps * m \<le> eps * (V * I)"
    using m(2,3) eps_pos by (intro mult_left_mono; simp)+
  then have tol: "1 / 20000 \<le> eps * (V / I)" "1 / 20000 \<le> eps * (V * I)"
    unfolding half [symmetric] by simp_all
  have Rd: "\<bar>R - V / I\<bar> \<le> 1 / 20000" and Pd: "\<bar>P - V * I\<bar> \<le> 1 / 20000"
    using R(2) P(2) by (simp_all add: rounded_to_def)
  have Rb: "\<bar>R - V / I\<bar> \<le> eps * (V / I)" and Pb: "\<bar>P - V * I\<bar> \<le> eps * (V * I)"
    using Rd Pd tol by linarith+
  note bounds = roundtrip_bounds [OF V I eps_pos eps_less Rb Pb]
  have first: "calculate_ohms \<lparr>ohms_v = Fin V, ohms_i = Fin I, ohms_r = NaN, ohms_p = NaN\<rparr>
             = Inr (\<lparr>ohms_v = toFixed 4 (Fin V), ohms_i = toFixed 4 (Fin I),
                     ohms_r = Fin R, ohms_p = Fin P\<rparr>, [Key_r, Key_p])"
    using ohms_first_solve [OF V I] unfolding R(1) P(1) .
  have "toFixed 4 (Fin R) = Fin R" "toFixed 4 (Fin P) = Fin P"
    using toFixed_idem [of 4 "Fin (V / I)"] toFixed_idem [of 4 "Fin (V * I)"]
    unfolding R(1) P(1) by simp_all
  then have second: "calculate_ohms \<lparr>ohms_v = NaN, ohms_i = NaN, ohms_r = Fin R, ohms_p = Fin P\<rparr>
             = Inr (\<lparr>ohms_v = Fin V', ohms_i = Fin I', ohms_r = Fin R, ohms_p = Fin P\<rparr>,
                    [Key_v, Key_i])"
    using ohms_second_solve [OF bounds(1,2)] unfolding V'(1) I'(1) by simp
  have "\<bar>V' - sqrt (P * R)\<bar> \<le> 1 / 20000" "\<bar>I' - sqrt (P / R)\<bar> \<le> 1 / 20000"
    using V'(2) I'(2) by (simp_all add: rounded_to_def)
  with bounds(3,4) have close: "\<bar>V' - V\<bar> \<le> eps * V + 1 / 20000"
      "\<bar>I' - I\<bar> \<le> eps / (1 - eps) * I + 1 / 20000"
    by linarith+
  from first R(2) P(2) second V'(2) I'(2) close show ?thesis by blast
qed

lemma example_sqrt_v: "round_decimals 4 (sqrt (6 * 0.6667)) = 2"
proof -
  have "1.99995 \<le> sqrt (6 * 0.6667) \<and> sqrt (6 * 0.6667) \<le> 2.0000499995"
    by (intro sqrt_between) (simp_all add: power2_eq_square)
  then have "20000 \<le> sqrt (6 * 0.6667) * 10 ^ 4 + 1 / 2" "sqrt (6 * 0.6667) * 10 ^ 4 + 1 / 2 < 20000 + 1"
    by simp_all
  then have "\<lfloor>sqrt (6 * 0.6667) * 10 ^ 4 + 1 / 2\<rfloor> = 20000" by (intro floor_unique) simp_all
  moreover have "0 < sqrt (6 * 0.6667)" by simp
  ultimately show ?thesis by (simp add: round_decimals_def)
qed

lemma example_sqrt_i: "round_decimals 4 (sqrt (6 / 0.6667)) = 2.9999"
proof -
  have "2.99985 \<le> sqrt (6 / 0.6667) \<and> sqrt (6 / 0.6667) \<le> 2.99994"
    by (intro sqrt_between) (simp_all add: power2_eq_square)
  then have "29999 \<le> sqrt (6 / 0.6667) * 10 ^ 4 + 1 / 2" "sqrt (6 / 0.6667) * 10 ^ 4 + 1 / 2 < 29999 + 1"
    by simp_all
  then have "\<lfloor>sqrt (6 / 0.6667) * 10 ^ 4 + 1 / 2\<rfloor> = 29999" by (intro floor_unique) simp_all
  moreover have "0 < sqrt (6 / 0.6667)" by simp
  ultimately show ?thesis by (simp add: round_decimals_def)
qed

theorem ohms_roundtrip_witness:
  "(0::real) < 2 \<and> (0::real) < 3 \<and> (1::real) / 20000 < 2 / 3 \<and> (1::real) / 20000 < 2 * 3
   \<and> calculate_ohms \<lparr>ohms_v = Fin 2, ohms_i = Fin 3, ohms_r = NaN, ohms_p = NaN\<rparr>
       = Inr (\<lparr>ohms_v = Fin 2, ohms_i = Fin 3, ohms_r = Fin 0.6667, ohms_p = Fin 6\<rparr>,
              [Key_r, Key_p])
   \<and> rounded_to 4 (2 / 3) 0.6667
   \<and> calculate_ohms \<lparr>ohms_v = NaN, ohms_i = NaN, ohms_r = Fin 0.6667, ohms_p = Fin 6\<rparr>
       = Inr (\<lparr>ohms_v = Fin 2, ohms_i = Fin 2.9999, ohms_r = Fin 0.6667, ohms_p = Fin 6\<rparr>,
              [Key_v, Key_i])
   \<and> \<bar>2.9999 - 3 :: real\<bar> \<le> (1 / 20000) / min (2 / 3) (2 * 3) / (1 - (1 / 20000) / min (2 / 3) (2 * 3)) * 3 + 1 / 20000"
proof -
  have first: "calculate_ohms \<lparr>ohms_v = Fin 2, ohms_i = Fin 3, ohms_r = NaN, ohms_p = NaN\<rparr>
       = Inr (\<lparr>ohms_v = Fin 2, ohms_i = Fin 3, ohms_r = Fin 0.6667, ohms_p = Fin 6\<rparr>,
              [Key_r, Key_p])"
    by (simp add: calculate_ohms_def inputCount_def isNaN_def parsed_input_def redisplay_def
        round_decimals_def)
  have fix_r: "toFixed 4 (Fin 0.6667) = Fin 0.6667" "toFixed 4 (Fin 6) = Fin 6"
    by (simp_all add: round_decimals_def)
  have fix_v: "toFixed 4 (Fin (sqrt (6 * 0.6667))) = Fin 2"
  proof -
    have "sqrt (6 * 0.6667) \<le> 2.0000499995"
      using sqrt_between [of 0 "6 * 0.6667" "2.0000499995"] by (simp add: power2_eq_square)
    then have "\<not> 10 ^ 21 \<le> \<bar>sqrt (6 * 0.6667)\<bar>" by simp
    then show ?thesis using example_sqrt_v by (simp del: real_sqrt_mult)
  qed
  have fix_i: "toFixed 4 (Fin (sqrt (6 / 0.6667))) = Fin 2.9999"
  proof -
    have "sqrt (6 / 0.6667) \<le> 2.99994"
      using sqrt_between [of 0 "6 / 0.6667" "2.99994"] by (simp add: power2_eq_square)
    then have "\<not> 10 ^ 21 \<le> \<bar>sqrt (6 / 0.6667)\<bar>" by simp
    then show ?thesis using example_sqrt_i by (simp del: real_sqrt_divide)
  qed
  have second: "calculate_ohms \<lparr>ohms_v = NaN, ohms_i = NaN, ohms_r = Fin 0.6667, ohms_p = Fin 6\<rparr>
       = Inr (\<lparr>ohms_v = Fin 2, ohms_i = Fin 2.9999, ohms_r = Fin 0.6667, ohms_p = Fin 6\<rparr>,
              [Key_v, Key_i])"
    using ohms_second_solve [of "0.6667" 6] unfolding fix_r fix_v fix_i by simp
  have r: "rounded_to 4 (2 / 3) 0.6667" by (simp add: rounded_to_def)
  show ?thesis
    using ohms_roundtrip [of 2 3] first second r by simp
qed

section \<open>Properties of the RC calculator\<close>

lemma scaled_not_NaN: "x \<noteq> NaN \<Longrightarrow> u \<noteq> 0 \<Longrightarrow> x * Fin u \<noteq> NaN"
  by (cases x) (auto simp: inf_times_def)

lemma supplied_less_two:
  "supplied values < 2 \<longleftrightarrow>
     \<not> (rc_r values \<noteq> NaN \<and> rc_c values \<noteq> NaN) \<and> \<not> (rc_r values \<noteq> NaN \<and> rc_f values \<noteq> NaN)
     \<and> \<not> (rc_c values \<noteq> NaN \<and> rc_f values \<noteq> NaN)"
  by (auto simp: supplied_def isNaN_def)

lemma fc_example_bounds: "125 < 500 / pi" "500 / pi < 1000"
proof -
  have "pi < 4" by (rule pi_less_4)
  then show "125 < 500 / pi" by (simp add: field_simps)
  have "2 \<le> pi" by (rule pi_ge_two)
  then show "500 / pi < 1000" by (simp add: field_simps)
qed

lemma fc_example_written: "toFixed 2 (Fin (500 / pi)) \<noteq> Fin 50"
proof -
  have "\<bar>round_decimals 2 (500 / pi) - 500 / pi\<bar> \<le> 1 / (2 * 10 ^ 2)"
    by (rule round_decimals_close)
  then have "\<bar>round_decimals 2 (500 / pi) - 500 / pi\<bar> \<le> 1 / 200" by simp
  with fc_example_bounds(1) have "50 < round_decimals 2 (500 / pi)" by linarith
  moreover have "\<not> 10 ^ 21 \<le> \<bar>500 / pi\<bar>" using fc_example_bounds by simp
  ultimately show ?thesis by simp
qed

text \<open>
  Claim C3 as stated fails when all three values are supplied: the first branch of
  \<open>calculateFilter\<close> asks for R and C only, so the solver reports no error, solves from
  R and C (here R = 1 k\<open>\<Omega>\<close>, C = 1 \<open>\<mu>\<close>F, f = 50 Hz) and overwrites the frequency field,
  which no longer reads 50.
\<close>

theorem filter_three_supplied_counterexample:
  "supplied \<lparr>rc_r = Fin 1, rc_rUnit = 1000, rc_c = Fin 1, rc_cUnit = 1 / 10 ^ 6,
             rc_f = Fin 50, rc_fUnit = 1\<rparr> = 3
   \<and> calculateFilter \<lparr>rc_r = Fin 1, rc_rUnit = 1000, rc_c = Fin 1, rc_cUnit = 1 / 10 ^ 6,
                       rc_f = Fin 50, rc_fUnit = 1\<rparr>
     = Inr (\<lparr>rc_r = Fin 1, rc_rUnit = 1000, rc_c = Fin 1, rc_cUnit = 1 / 10 ^ 6,
              rc_f = toFixed 2 (Fin (500 / pi)), rc_fUnit = 1\<rparr>,
            \<lparr>filter_tau = Fin (1 / 1000), filter_fc = Fin (500 / pi)\<rparr>)
   \<and> toFixed 2 (Fin (500 / pi)) \<noteq> Fin 50"
  using fc_example_bounds fc_example_written
  by (simp add: supplied_def calculateFilter_def isNaN_def js_pi_def Let_def less_eq_jsnum_def
      del: toFixed.simps)

text \<open>
  Claim C3, as amended. With positive unit multipliers, the RC filter solver fails with
  InsufficientInputs exactly when fewer than 2 of R, C and f are supplied; when all 3 are
  supplied it reports no error, solves from R and C (\<open>tau = R C\<close>, \<open>fc = 1 / (2 pi R C)\<close>)
  and overwrites the frequency field with \<open>fc\<close> in its best unit, to 2 decimals, leaving
  the other fields as they were.
\<close>

theorem filter_insufficient_inputs:
  fixes vals :: RCState
  defines "r \<equiv> rc_r vals * Fin (rc_rUnit vals)"
      and "c \<equiv> rc_c vals * Fin (rc_cUnit vals)"
  defines "fc \<equiv> Fin 1 / (Fin 2 * js_pi * r * c)"
  defines "bestFUnit \<equiv> (if fc \<ge> Fin 1000000 then 1000000 else if fc \<ge> Fin 1000 then 1000 else 1)"
  assumes units: "rc_rUnit vals > 0" "rc_cUnit vals > 0" "rc_fUnit vals > 0"
  shows "(calculateFilter vals = Inl InsufficientInputs \<longleftrightarrow> supplied vals < 2)
       \<and> (supplied vals = 3 \<longrightarrow>
            calculateFilter vals
              = Inr (vals\<lparr>rc_f := toFixed 2 (fc / Fin bestFUnit), rc_fUnit := bestFUnit\<rparr>,
                     \<lparr>filter_tau = r * c, filter_fc = fc\<rparr>))"
proof -
  have r: "rc_r vals \<noteq> NaN \<Longrightarrow> rc_r vals * Fin (rc_rUnit vals) \<noteq> NaN"
    and c: "rc_c vals \<noteq> NaN \<Longrightarrow> rc_c vals * Fin (rc_cUnit vals) \<noteq> NaN"
    and f: "rc_f vals \<noteq> NaN \<Longrightarrow> rc_f vals * Fin (rc_fUnit vals) \<noteq> NaN"
    using units by (simp_all add: scaled_not_NaN)
  have "calculateFilter vals = Inl InsufficientInputs \<longleftrightarrow> supplied vals < 2"
    unfolding supplied_less_two using r c f
    by (auto simp: calculateFilter_def isNaN_def Let_def)
  moreover have "supplied vals = 3 \<longrightarrow>
            calculateFilter vals
              = Inr (vals\<lparr>rc_f := toFixed 2 (fc / Fin bestFUnit), rc_fUnit := bestFUnit\<rparr>,
                     \<lparr>filter_tau = r * c, filter_fc = fc\<rparr>)"
  proof
    assume "supplied vals = 3"
    then have "rc_r vals \<noteq> NaN" "rc_c vals \<noteq> NaN"
      by (auto simp: supplied_def isNaN_def split: if_splits)
    with r c show "calculateFilter vals
              = Inr (vals\<lparr>rc_f := toFixed 2 (fc / Fin bestFUnit), rc_fUnit := bestFUnit\<rparr>,
                     \<lparr>filter_tau = r * c, filter_fc = fc\<rparr>)"
      by (simp add: calculateFilter_def isNaN_def Let_def r_def c_def fc_def bestFUnit_def
          del: toFixed.simps)
  qed
  ultimately show ?thesis by blast
qed

theorem filter_insufficient_inputs_witness:
  "(0::real) < 1000 \<and> (0::real) < 1 / 10 ^ 6 \<and> (0::real) < 1
   \<and> supplied \<lparr>rc_r = Fin 10, rc_rUnit = 1000, rc_c = NaN, rc_cUnit = 1 / 10 ^ 6,
               rc_f = NaN, rc_fUnit = 1\<rparr> < 2
   \<and> calculateFilter \<lparr>rc_r = Fin 10, rc_rUnit = 1000, rc_c = NaN, rc_cUnit = 1 / 10 ^ 6,
                       rc_f = NaN, rc_fUnit = 1\<rparr> = Inl InsufficientInputs
   \<and> (0::real) < 1000000 \<and> (0::real) < 1 / 10 ^ 3
   \<and> supplied \<lparr>rc_r = Fin 1, rc_rUnit = 1000000, rc_c = Fin 1, rc_cUnit = 1 / 10 ^ 3,
               rc_f = Fin 50, rc_fUnit = 1000\<rparr> = 3
   \<and> calculateFilter \<lparr>rc_r = Fin 1, rc_rUnit = 1000000, rc_c = Fin 1, rc_cUnit = 1 / 10 ^ 3,
                       rc_f = Fin 50, rc_fUnit = 1000\<rparr>
       = Inr (\<lparr>rc_r = Fin 1, rc_rUnit = 1000000, rc_c = Fin 1, rc_cUnit = 1 / 10 ^ 3,
                rc_f = Fin 0, rc_fUnit = 1\<rparr>,
              \<lparr>filter_tau = Fin 1000, filter_fc = Fin (1 / (2000 * pi))\<rparr>)"
proof -
  have "2 \<le> pi" by (rule pi_ge_two)
  then have small: "0 < 1 / (2000 * pi)" "1 / (2000 * pi) * 100 + 1 / 2 < 1" "1 / (2000 * pi) < 1000"
    by (simp_all add: field_simps)
  then have "\<lfloor>1 / (2000 * pi) * 100 + 1 / 2\<rfloor> = 0" by (intro floor_unique) simp_all
  then have z: "round_decimals 2 (1 / (2000 * pi)) = 0"
    using small(1) by (simp add: round_decimals_def)
  have big: "\<not> 10 ^ 21 \<le> \<bar>1 / (2000 * pi)\<bar>" using small by simp
  have fx: "toFixed 2 (Fin (1 / (2000 * pi))) = Fin 0"
    using z big by (simp del: abs_divide)
  show ?thesis
    using filter_insufficient_inputs [of "\<lparr>rc_r = Fin 10, rc_rUnit = 1000, rc_c = NaN,
        rc_cUnit = 1 / 10 ^ 6, rc_f = NaN, rc_fUnit = 1\<rparr>"]
      filter_insufficient_inputs [of "\<lparr>rc_r = Fin 1, rc_rUnit = 1000000, rc_c = Fin 1,
        rc_cUnit = 1 / 10 ^ 3, rc_f = Fin 50, rc_fUnit = 1000\<rparr>"]
      fx small
    by (simp add: supplied_def isNaN_def js_pi_def less_eq_jsnum_def del: toFixed.simps)
qed

text \<open>
  Claim C6. In delay mode, when Vin parses, R > 0, C > 0, a target voltage is supplied and
  there is no elapsed time (the time field is blank or not positive), the solver fails
  with one of the two target messages exactly when Vtarget \<open>\<ge>\<close> Vin or Vtarget \<open>\<le>\<close> 0, and
  otherwise derives \<open>t = - R C ln (1 - Vtarget / Vin)\<close>, a real logarithm when the inputs
  are finite.
\<close>

theorem delay_target_time:
  fixes delayValues :: DelayState
  defines "vin \<equiv> delay_vin delayValues"
      and "vtarget \<equiv> delay_vtarget delayValues"
      and "r \<equiv> delay_r delayValues * Fin (delay_rUnit delayValues)"
      and "c \<equiv> delay_c delayValues * Fin (delay_cUnit delayValues)"
      and "t \<equiv> delay_t delayValues * Fin (delay_tUnit delayValues)"
  assumes "vin \<noteq> NaN" and "Fin 0 < r" and "Fin 0 < c" and "vtarget \<noteq> NaN" and "\<not> Fin 0 < t"
  shows "((calculateDelay delayValues = Inl TargetNotBelowSupply
           \<or> calculateDelay delayValues = Inl TargetNotPositive)
          \<longleftrightarrow> (vin \<le> vtarget \<or> vtarget \<le> Fin 0))
       \<and> (\<not> (vin \<le> vtarget \<or> vtarget \<le> Fin 0) \<longrightarrow>
            map_sum id snd (calculateDelay delayValues)
              = Inr \<lparr>result_t = (- (r * c)) * js_log (Fin 1 - vtarget / vin), result_tau = r * c\<rparr>)
       \<and> (\<forall>Vin Vt R C. vin = Fin Vin \<and> vtarget = Fin Vt \<and> r = Fin R \<and> c = Fin C
              \<and> \<not> (vin \<le> vtarget \<or> vtarget \<le> Fin 0) \<longrightarrow>
            map_sum id snd (calculateDelay delayValues)
              = Inr \<lparr>result_t = Fin (- (R * C) * ln (1 - Vt / Vin)), result_tau = Fin (R * C)\<rparr>)"
proof -
  have rn: "r \<noteq> NaN" and cn: "c \<noteq> NaN" using assms(7,8) by auto
  have pre: "\<not> isNaN vin" "\<not> isNaN r" "\<not> isNaN c" "\<not> isNaN vtarget"
    using assms(6,9) rn cn by (simp_all add: isNaN_def)
  have errs: "(calculateDelay delayValues = Inl TargetNotBelowSupply
           \<or> calculateDelay delayValues = Inl TargetNotPositive)
          \<longleftrightarrow> (vin \<le> vtarget \<or> vtarget \<le> Fin 0)"
    using pre assms(7,8,10)
    unfolding vin_def vtarget_def r_def c_def t_def
    by (auto simp: calculateDelay_def Let_def)
  have res: "\<not> (vin \<le> vtarget \<or> vtarget \<le> Fin 0) \<Longrightarrow>
            map_sum id snd (calculateDelay delayValues)
              = Inr \<lparr>result_t = (- (r * c)) * js_log (Fin 1 - vtarget / vin), result_tau = r * c\<rparr>"
    using pre assms(7,8,10)
    unfolding vin_def vtarget_def r_def c_def t_def
    by (auto simp: calculateDelay_def Let_def)
  have fin: "map_sum id snd (calculateDelay delayValues)
              = Inr \<lparr>result_t = Fin (- (R * C) * ln (1 - Vt / Vin)), result_tau = Fin (R * C)\<rparr>"
    if eqs: "vin = Fin Vin" "vtarget = Fin Vt" "r = Fin R" "c = Fin C"
      and ok: "\<not> (vin \<le> vtarget \<or> vtarget \<le> Fin 0)" for Vin Vt R C
  proof -
    from ok eqs have "0 < Vt" "Vt < Vin" by (auto simp: less_eq_jsnum_def)
    then have "Vin \<noteq> 0" "Vin \<noteq> Vt" "Vt / Vin < 1" by simp_all
    then have "(- (r * c)) * js_log (Fin 1 - vtarget / vin) = Fin (- (R * C) * ln (1 - Vt / Vin))"
      using eqs by (simp add: minus_jsnum_def)
    moreover have "r * c = Fin (R * C)" using eqs by simp
    ultimately show ?thesis using res [OF ok] by simp
  qed
  from errs res fin show ?thesis by blast
qed

theorem delay_target_time_witness:
  "delay_vin \<lparr>delay_vin = Fin 5, delay_vtarget = Fin 3.16, delay_r = Fin 10, delay_rUnit = 1000,
        delay_c = Fin 100, delay_cUnit = 1 / 10 ^ 6, delay_t = NaN, delay_tUnit = 1\<rparr> \<noteq> NaN
   \<and> Fin 0 < Fin 10 * Fin 1000 \<and> Fin 0 < Fin 100 * Fin (1 / 10 ^ 6) \<and> Fin 3.16 \<noteq> NaN
   \<and> \<not> Fin 0 < NaN * Fin 1
   \<and> \<not> (Fin 5 \<le> Fin 3.16 \<or> Fin 3.16 \<le> Fin 0)
   \<and> map_sum id snd (calculateDelay
        \<lparr>delay_vin = Fin 5, delay_vtarget = Fin 3.16, delay_r = Fin 10, delay_rUnit = 1000,
         delay_c = Fin 100, delay_cUnit = 1 / 10 ^ 6, delay_t = NaN, delay_tUnit = 1\<rparr>)
     = Inr \<lparr>result_t = Fin (- ln (1 - 3.16 / 5)), result_tau = Fin 1\<rparr>"
  using delay_target_time [of
        "\<lparr>delay_vin = Fin 5, delay_vtarget = Fin 3.16, delay_r = Fin 10, delay_rUnit = 1000,
         delay_c = Fin 100, delay_cUnit = 1 / 10 ^ 6, delay_t = NaN, delay_tUnit = 1\<rparr>"]
  by (simp add: less_eq_jsnum_def minus_jsnum_def)

section \<open>Properties of the battery-life calculator\<close>

lemma floor_remainder_24:
  fixes h :: real
  assumes "0 \<le> h"
  shows "\<lfloor>h - 24 * of_int (js_trunc (h / 24))\<rfloor> = \<lfloor>h\<rfloor> mod 24"
proof -
  have "js_trunc (h / 24) = \<lfloor>h / 24\<rfloor>" using assms by (simp add: js_trunc_def)
  also have "\<dots> = \<lfloor>h\<rfloor> div 24"
    using floor_divide_real_eq_div [of 24 h] by simp
  finally have t: "js_trunc (h / 24) = \<lfloor>h\<rfloor> div 24" .
  have "\<lfloor>h - 24 * of_int (\<lfloor>h\<rfloor> div 24)\<rfloor> = \<lfloor>h - of_int (24 * (\<lfloor>h\<rfloor> div 24))\<rfloor>" by simp
  also have "\<dots> = \<lfloor>h\<rfloor> - 24 * (\<lfloor>h\<rfloor> div 24)" by (simp only: floor_diff_of_int)
  also have "\<dots> = \<lfloor>h\<rfloor> mod 24" by (simp add: minus_mult_div_eq_mod)
  finally show ?thesis using t by simp
qed

lemmas battery_eval = calculate_battery_def js_times_def js_divide_def js_minus_def
  fl_def round64_def round_half_even_def exponent2_def exp2_up.simps exp2_down.simps
  isNaN_def js_eq_def minus_jsnum_def js_trunc_def round_decimals_def Let_def

text \<open>
  Claim C8. Capacity and current are read as doubles; when one of them is not a number
  or the current is 0 there is no result. Otherwise the solver computes
  \<open>hours = capacity * efficiency / current\<close> in doubles and reports the days
  \<open>floor (hours / 24)\<close> and the whole hours \<open>floor (hours % 24)\<close> (each left out of the text
  when it is not positive, as in the example), the minutes
  \<open>round ((hours - floor hours) * 60)\<close>, and the hours to one decimal: a multiple of 0.1
  within 0.05 of \<open>hours\<close>. Capacity 2000, current 100 and efficiency 0.85 give
  17 hours 0 minutes (17.0 hours).
\<close>

theorem battery_life:
  fixes inputs :: BatteryInputs
  defines "cap \<equiv> dbl (capacity inputs)"
      and "load \<equiv> dbl (battery_current inputs)"
  defines "hours \<equiv> js_divide (js_times cap (round64 (efficiency inputs))) load"
  defines "days \<equiv> js_floor (js_divide hours (Fin 24))"
      and "remHours \<equiv> js_floor (js_mod hours (Fin 24))"
      and "minutes \<equiv> js_round (js_times (js_minus hours (js_floor hours)) (Fin 60))"
  shows "(isNaN cap \<or> isNaN load \<or> load = Fin 0 \<longrightarrow> calculate_battery inputs = None)
       \<and> (\<not> (isNaN cap \<or> isNaN load \<or> load = Fin 0) \<longrightarrow>
            calculate_battery inputs
              = Some \<lparr>resString = (if Fin 0 < days then [Days days] else [])
                                    @ (if Fin 0 < remHours then [Hours remHours] else [])
                                    @ [Minutes minutes],
                      totalHours = toFixed 1 hours\<rparr>)
       \<and> (\<forall>q. js_divide hours (Fin 24) = Fin q \<longrightarrow> days = Fin (of_int \<lfloor>q\<rfloor>))
       \<and> (\<forall>h. hours = Fin h \<longrightarrow>
              remHours = Fin (of_int \<lfloor>h - 24 * of_int (js_trunc (h / 24))\<rfloor>)
              \<and> (0 \<le> h \<longrightarrow> \<lfloor>h - 24 * of_int (js_trunc (h / 24))\<rfloor> = \<lfloor>h\<rfloor> mod 24))
       \<and> (\<forall>m. js_times (js_minus hours (js_floor hours)) (Fin 60) = Fin m \<longrightarrow>
              minutes = Fin (of_int \<lfloor>m + 1 / 2\<rfloor>))
       \<and> (\<forall>h. hours = Fin h \<and> \<bar>h\<bar> < 10 ^ 21 \<longrightarrow>
              (\<exists>t. toFixed 1 hours = Fin t \<and> of_int \<lfloor>t * 10\<rfloor> = t * 10 \<and> \<bar>t - h\<bar> \<le> 1 / 20))
       \<and> calculate_battery \<lparr>capacity = Fin 2000, battery_current = Fin 100, efficiency = 0.85\<rparr>
           = Some \<lparr>resString = [Hours (Fin 17), Minutes (Fin 0)], totalHours = Fin 17\<rparr>"
proof -
  have none: "isNaN cap \<or> isNaN load \<or> load = Fin 0 \<longrightarrow> calculate_battery inputs = None"
    unfolding cap_def load_def by (auto simp: calculate_battery_def js_eq_def Let_def isNaN_def)
  have some: "\<not> (isNaN cap \<or> isNaN load \<or> load = Fin 0) \<longrightarrow>
            calculate_battery inputs
              = Some \<lparr>resString = (if Fin 0 < days then [Days days] else [])
                                    @ (if Fin 0 < remHours then [Hours remHours] else [])
                                    @ [Minutes minutes],
                      totalHours = toFixed 1 hours\<rparr>"
    unfolding cap_def load_def hours_def days_def remHours_def minutes_def
    by (simp add: calculate_battery_def js_eq_def Let_def isNaN_def del: toFixed.simps)
  have d: "\<forall>q. js_divide hours (Fin 24) = Fin q \<longrightarrow> days = Fin (of_int \<lfloor>q\<rfloor>)"
    by (simp add: days_def)
  have r: "\<forall>h. hours = Fin h \<longrightarrow>
              remHours = Fin (of_int \<lfloor>h - 24 * of_int (js_trunc (h / 24))\<rfloor>)
              \<and> (0 \<le> h \<longrightarrow> \<lfloor>h - 24 * of_int (js_trunc (h / 24))\<rfloor> = \<lfloor>h\<rfloor> mod 24)"
    using floor_remainder_24 by (simp add: remHours_def)
  have m: "\<forall>m. js_times (js_minus hours (js_floor hours)) (Fin 60) = Fin m \<longrightarrow>
              minutes = Fin (of_int \<lfloor>m + 1 / 2\<rfloor>)"
    by (simp add: minutes_def)
  have t: "\<forall>h. hours = Fin h \<and> \<bar>h\<bar> < 10 ^ 21 \<longrightarrow>
              (\<exists>t. toFixed 1 hours = Fin t \<and> of_int \<lfloor>t * 10\<rfloor> = t * 10 \<and> \<bar>t - h\<bar> \<le> 1 / 20)"
  proof (intro allI impI)
    fix h assume h: "hours = Fin h \<and> \<bar>h\<bar> < 10 ^ 21"
    then have "toFixed 1 hours = Fin (round_decimals 1 h)" by simp
    moreover have "of_int \<lfloor>round_decimals 1 h * 10\<rfloor> = round_decimals 1 h * 10"
      using round_decimals_whole [of 1 h] by simp
    moreover have "\<bar>round_decimals 1 h - h\<bar> \<le> 1 / 20"
      using round_decimals_close [of 1 h] by simp
    ultimately show "\<exists>t. toFixed 1 hours = Fin t \<and> of_int \<lfloor>t * 10\<rfloor> = t * 10 \<and> \<bar>t - h\<bar> \<le> 1 / 20"
      by blast
  qed
  have example:
    "calculate_battery \<lparr>capacity = Fin 2000, battery_current = Fin 100, efficiency = 0.85\<rparr>
           = Some \<lparr>resString = [Hours (Fin 17), Minutes (Fin 0)], totalHours = Fin 17\<rparr>"
    by (simp add: battery_eval)
  from none some d r m t example show ?thesis by blast
qed


theorem battery_life_witness:
  "\<not> (isNaN (dbl (Fin 170)) \<or> isNaN (dbl (Fin 7)) \<or> dbl (Fin 7) = Fin 0)
   \<and> js_divide (js_times (dbl (Fin 170)) (round64 0.7)) (dbl (Fin 7))
       = Fin (4785074604081151 / 2 ^ 48)
   \<and> (0::real) \<le> 4785074604081151 / 2 ^ 48 \<and> \<bar>4785074604081151 / 2 ^ 48 :: real\<bar> < 10 ^ 21
   \<and> calculate_battery \<lparr>capacity = Fin 170, battery_current = Fin 7, efficiency = 0.7\<rparr>
       = Some \<lparr>resString = [Hours (Fin 16), Minutes (Fin 60)], totalHours = Fin 17\<rparr>
   \<and> calculate_battery \<lparr>capacity = Fin 3000, battery_current = Fin 50, efficiency = 0.85\<rparr>
       = Some \<lparr>resString = [Days (Fin 2), Hours (Fin 3), Minutes (Fin 0)], totalHours = Fin 51\<rparr>
   \<and> (isNaN (dbl NaN) \<or> isNaN (dbl (Fin 50)) \<or> dbl (Fin 50) = Fin 0)
   \<and> calculate_battery \<lparr>capacity = NaN, battery_current = Fin 50, efficiency = 0.85\<rparr> = None
   \<and> (isNaN (dbl (Fin 3000)) \<or> isNaN (dbl (Fin 0)) \<or> dbl (Fin 0) = Fin 0)
   \<and> calculate_battery \<lparr>capacity = Fin 3000, battery_current = Fin 0, efficiency = 0.85\<rparr> = None"
  using battery_life [of "\<lparr>capacity = Fin 170, battery_current = Fin 7, efficiency = 0.7\<rparr>"]
    battery_life [of "\<lparr>capacity = NaN, battery_current = Fin 50, efficiency = 0.85\<rparr>"]
  by (simp add: battery_eval)

text \<open>
  The last bit matters: for capacity 1100, current 200 and efficiency 0.55 the hours are
  the double below 3.025, and the minutes are 1, not 2.
\<close>

lemma battery_rounding_example:
  "calculate_battery \<lparr>capacity = Fin 1100, battery_current = Fin 200, efficiency = 0.55\<rparr>
     = Some \<lparr>resString = [Hours (Fin 3), Minutes (Fin 1)], totalHours = Fin 3\<rparr>"
  by (simp add: battery_eval)

section \<open>Properties of the number formatting\<close>

lemma digit_char_digit: "d < 10 \<Longrightarrow> digit_char d \<in> set ''0123456789''"
  unfolding digit_char_def by (rule nth_mem) simp

lemma digits_of_digits: "set (digits_of n) \<subseteq> set ''0123456789''"
proof (induction n rule: digits_of.induct)
  case (1 n)
  show ?case
  proof (cases "n < 10")
    case True
    then show ?thesis using digit_char_digit [of n] by (subst digits_of.simps) simp
  next
    case False
    have "n mod 10 < 10" by simp
    then have "digit_char (n mod 10) \<in> set ''0123456789''" by (rule digit_char_digit)
    with False 1 show ?thesis by (subst digits_of.simps) simp
  qed
qed

lemma group_thousands_chars: "set (group_thousands ds) \<subseteq> insert (CHR '','') (set ds)"
proof (induction ds rule: group_thousands.induct)
  case (1 ds)
  show ?case
  proof (cases "length ds \<le> 3")
    case True
    then show ?thesis by (subst group_thousands.simps) auto
  next
    case False
    have "set (take (length ds - 3) ds) \<subseteq> set ds" by (rule set_take_subset)
    moreover have "set (drop (length ds - 3) ds) \<subseteq> set ds" by (rule set_drop_subset)
    ultimately show ?thesis using False 1 by (subst group_thousands.simps) auto
  qed
qed

lemma length_fraction_digits: "length (fraction_digits n) \<le> 3"
proof -
  let ?ds = "rev [digit_char (n div 100 mod 10), digit_char (n div 10 mod 10), digit_char (n mod 10)]"
  have "length (dropWhile (\<lambda>c. c = CHR ''0'') ?ds) \<le> length ?ds"
    by (rule length_dropWhile_le)
  then show ?thesis by (simp add: fraction_digits_def)
qed

lemma no_point_in_integer_part:
  "CHR ''.'' \<notin> set ((if neg then ''-'' else '''') @ group_thousands (digits_of k))"
proof -
  define D where "D = set ''0123456789''"
  have d: "CHR ''.'' \<notin> D" by (simp add: D_def)
  have "set (digits_of k) \<subseteq> D" unfolding D_def by (rule digits_of_digits)
  moreover have "set (group_thousands (digits_of k)) \<subseteq> insert (CHR '','') (set (digits_of k))"
    by (rule group_thousands_chars)
  moreover have "CHR ''.'' \<noteq> CHR '',''" by simp
  ultimately have "CHR ''.'' \<notin> set (group_thousands (digits_of k))" using d by blast
  then show ?thesis by simp
qed

lemma toLocaleString_decimals: "length (decimals_of (toLocaleString x)) \<le> 3"
proof -
  define n where "n = nat \<lfloor>\<bar>x\<bar> * 1000 + 1 / 2\<rfloor>"
  define pre where "pre = (if x < 0 then ''-'' else '''') @ group_thousands (digits_of (n div 1000))"
  define frac where "frac = fraction_digits (n mod 1000)"
  have shape: "toLocaleString x = pre @ (if frac = [] then [] else ''.'' @ frac)"
    by (simp add: toLocaleString_def Let_def n_def pre_def frac_def)
  have "CHR ''.'' \<notin> set pre" unfolding pre_def by (rule no_point_in_integer_part)
  then have skip: "dropWhile (\<lambda>c. c \<noteq> CHR ''.'') (pre @ ys) = dropWhile (\<lambda>c. c \<noteq> CHR ''.'') ys" for ys
    by (intro dropWhile_append2) auto
  have "decimals_of (toLocaleString x) = frac"
    unfolding shape decimals_of_def skip by simp
  then show ?thesis using length_fraction_digits [of "n mod 1000"] by (simp add: frac_def)
qed

text \<open>
  Claim C2 as stated fails from \<open>10^9\<close> on: the code has no prefix G. The largest prefix
  of the claim's list that leaves a mantissa of at least 1 is G, the code picks M and
  prints the mantissa 1,000.
\<close>

theorem format_unit_giga_counterexample:
  "formatUnit (10 ^ 9) ''V'' = ''1,000 MV''
   \<and> spec_largest_prefix spec_si_prefixes (10 ^ 9) (''G'', 10 ^ 9)
   \<and> \<not> spec_largest_prefix spec_si_prefixes (10 ^ 9) (''M'', 10 ^ 6)"
  by (simp add: formatUnit_def formatUnit_scale_def toLocaleString_def digits_of.simps
      digit_char_def group_thousands.simps fraction_digits_def spec_largest_prefix_def
      spec_si_prefixes_def micro_def)

lemma code_prefixes_eq:
  "code_prefixes = [(''n'', 1 / 10 ^ 9), (micro, 1 / 10 ^ 6), (''m'', 1 / 10 ^ 3), ('''', 1),
      (''k'', 10 ^ 3), (''M'', 10 ^ 6)]"
  by (simp add: code_prefixes_def spec_si_prefixes_def)

lemma format_unit_largest:
  assumes "1 / 10 ^ 9 \<le> v"
  shows "\<exists>p. spec_largest_prefix code_prefixes v p \<and> formatUnit_scale v = (v / snd p, fst p)"
proof -
  consider "10 ^ 6 \<le> v" | "10 ^ 3 \<le> v" "v < 10 ^ 6" | "1 \<le> v" "v < 10 ^ 3"
    | "1 / 10 ^ 3 \<le> v" "v < 1" | "1 / 10 ^ 6 \<le> v" "v < 1 / 10 ^ 3"
    | "1 / 10 ^ 9 \<le> v" "v < 1 / 10 ^ 6"
    using assms by linarith
  then show ?thesis
  proof cases
    case 1
    then have "spec_largest_prefix code_prefixes v (''M'', 10 ^ 6) \<and> formatUnit_scale v = (v / 10 ^ 6, ''M'')"
      by (simp add: spec_largest_prefix_def code_prefixes_eq formatUnit_scale_def)
    then show ?thesis by force
  next
    case 2
    then have "spec_largest_prefix code_prefixes v (''k'', 10 ^ 3) \<and> formatUnit_scale v = (v / 10 ^ 3, ''k'')"
      by (simp add: spec_largest_prefix_def code_prefixes_eq formatUnit_scale_def)
    then show ?thesis by force
  next
    case 3
    then have "spec_largest_prefix code_prefixes v ('''', 1) \<and> formatUnit_scale v = (v / 1, '''')"
      by (simp add: spec_largest_prefix_def code_prefixes_eq formatUnit_scale_def)
    then show ?thesis by force
  next
    case 4
    then have "spec_largest_prefix code_prefixes v (''m'', 1 / 10 ^ 3)
        \<and> formatUnit_scale v = (v / (1 / 10 ^ 3), ''m'')"
      by (simp add: spec_largest_prefix_def code_prefixes_eq formatUnit_scale_def)
    then show ?thesis by force
  next
    case 5
    then have "spec_largest_prefix code_prefixes v (micro, 1 / 10 ^ 6)
        \<and> formatUnit_scale v = (v / (1 / 10 ^ 6), micro)"
      by (simp add: spec_largest_prefix_def code_prefixes_eq formatUnit_scale_def)
    then show ?thesis by force
  next
    case 6
    then have "spec_largest_prefix code_prefixes v (''n'', 1 / 10 ^ 9)
        \<and> formatUnit_scale v = (v / (1 / 10 ^ 9), ''n'')"
      by (simp add: spec_largest_prefix_def code_prefixes_eq formatUnit_scale_def)
    then show ?thesis by force
  qed
qed

text \<open>
  Claim C2, as amended. \<open>formatUnit\<close> prints the scaled value with up to 3 fractional digits,
  a space, the prefix and the unit. For \<open>v \<ge> 10^-9\<close> the prefix is the largest among n,
  \<open>\<mu>\<close>, m, none, k, M that leaves a mantissa of at least 1; a positive \<open>v\<close> below \<open>10^-9\<close> is
  scaled by n; 0 and negative values are not scaled.
\<close>

theorem format_unit_prefix:
  "formatUnit v u = toLocaleString (fst (formatUnit_scale v)) @ '' '' @ snd (formatUnit_scale v) @ u
   \<and> (1 / 10 ^ 9 \<le> v \<longrightarrow>
        (\<exists>p. spec_largest_prefix code_prefixes v p \<and> formatUnit_scale v = (v / snd p, fst p)))
   \<and> (0 < v \<and> v < 1 / 10 ^ 9 \<longrightarrow> formatUnit_scale v = (v * 10 ^ 9, ''n''))
   \<and> (v \<le> 0 \<longrightarrow> formatUnit_scale v = (v, ''''))
   \<and> length (decimals_of (toLocaleString (fst (formatUnit_scale v)))) \<le> 3"
proof -
  have "formatUnit v u = toLocaleString (fst (formatUnit_scale v)) @ '' '' @ snd (formatUnit_scale v) @ u"
    by (simp add: formatUnit_def split: prod.splits)
  moreover have "0 < v \<and> v < 1 / 10 ^ 9 \<longrightarrow> formatUnit_scale v = (v * 10 ^ 9, ''n'')"
    by (simp add: formatUnit_scale_def)
  moreover have "v \<le> 0 \<longrightarrow> formatUnit_scale v = (v, '''')"
    by (simp add: formatUnit_scale_def)
  ultimately show ?thesis
    using format_unit_largest [of v] toLocaleString_decimals by blast
qed

theorem format_unit_prefix_witness:
  "(1::real) / 10 ^ 9 \<le> 4700
   \<and> spec_largest_prefix code_prefixes 4700 (''k'', 10 ^ 3)
   \<and> formatUnit_scale 4700 = (4.7, ''k'')
   \<and> formatUnit 4700 ''V'' = ''4.7 kV''
   \<and> length (decimals_of (toLocaleString 4.7)) \<le> 3
   \<and> (0::real) < 5 / 10 ^ 10 \<and> (5::real) / 10 ^ 10 < 1 / 10 ^ 9
   \<and> formatUnit_scale (5 / 10 ^ 10) = (0.5, ''n'')
   \<and> (- 5 :: real) \<le> 0 \<and> formatUnit_scale (- 5) = (- 5, '''')"
  using format_unit_prefix [of 4700 "''V''"] format_unit_prefix [of "5 / 10 ^ 10" "''V''"]
    format_unit_prefix [of "- 5" "''V''"]
  by (simp add: formatUnit_def formatUnit_scale_def toLocaleString_def digits_of.simps
      digit_char_def group_thousands.simps fraction_digits_def spec_largest_prefix_def
      code_prefixes_eq micro_def decimals_of_def)

lemma exp10_up_bounds:
  "1 \<le> x \<Longrightarrow> 10 ^ exp10_up x \<le> x \<and> x < 10 ^ Suc (exp10_up x)"
proof (induction x rule: exp10_up.induct)
  case (1 x)
  show ?case
  proof (cases "x < 10")
    case True
    with 1 show ?thesis by (subst (1 2) exp10_up.simps) simp
  next
    case False
    then have "1 \<le> x / 10" by simp
    with 1 False have "10 ^ exp10_up (x / 10) \<le> x / 10 \<and> x / 10 < 10 ^ Suc (exp10_up (x / 10))"
      by blast
    then have "10 * 10 ^ exp10_up (x / 10) \<le> x \<and> x < 10 * 10 ^ Suc (exp10_up (x / 10))"
      by linarith
    with False show ?thesis by (subst (1 2) exp10_up.simps) simp
  qed
qed

lemma exp10_down_bounds:
  "0 < x \<Longrightarrow> x < 1 \<Longrightarrow> 1 / 10 ^ exp10_down x \<le> x \<and> x < 10 / 10 ^ exp10_down x"
proof (induction x rule: exp10_down.induct)
  case (1 x)
  from "1.prems" have unfold: "exp10_down x = Suc (exp10_down (x * 10))"
    by (subst exp10_down.simps) simp
  show ?case
  proof (cases "x * 10 < 1")
    case True
    define a :: real where "a = 1 / 10 ^ exp10_down (x * 10)"
    from True 1 have "a \<le> x * 10 \<and> x * 10 < 10 * a"
      by (simp add: a_def)
    then have "a / 10 \<le> x \<and> x < 10 * (a / 10)"
      by linarith
    then show ?thesis unfolding unfold a_def by simp
  next
    case False
    then have "exp10_down (x * 10) = 0" by (subst exp10_down.simps) simp
    with False "1.prems" show ?thesis unfolding unfold by simp
  qed
qed

lemma exponent10_bounds:
  assumes "0 < x"
  shows "10 powi exponent10 x \<le> x \<and> x < 10 powi (exponent10 x + 1)"
proof (cases "1 \<le> x")
  case True
  then have e: "exponent10 x = int (exp10_up x)" by (simp add: exponent10_def)
  have "int (exp10_up x) + 1 = int (Suc (exp10_up x))" by simp
  then have "(10::real) powi (int (exp10_up x) + 1) = 10 ^ Suc (exp10_up x)"
    by (simp only: power_int_of_nat)
  with exp10_up_bounds [OF True] show ?thesis unfolding e by (simp only: power_int_of_nat)
next
  case False
  then have lt: "x < 1" by simp
  from False have e: "exponent10 x = - int (exp10_down x)" by (simp add: exponent10_def)
  have a: "(10::real) powi (- int (exp10_down x)) = 1 / 10 ^ exp10_down x"
    by (simp add: power_int_minus field_simps)
  have "(10::real) powi (- int (exp10_down x) + 1) = 10 powi (- int (exp10_down x)) * 10 powi 1"
    by (rule power_int_add) simp
  then have b: "(10::real) powi (- int (exp10_down x) + 1) = 10 / 10 ^ exp10_down x"
    using a by simp
  from exp10_down_bounds [OF assms lt] show ?thesis unfolding e a b .
qed

lemma exp_parts_bounds:
  assumes "0 < x" and "exp_parts f x = (n, e)"
  shows "10 ^ f \<le> n \<and> n < 10 ^ (f + 1)
       \<and> \<bar>x - of_nat n * 10 powi (e - int f)\<bar> \<le> 10 powi (e - int f) / 2"
proof -
  define e0 where "e0 = exponent10 x"
  define s :: real where "s = 10 powi (e0 - int f)"
  define y where "y = x / s"
  define n0 where "n0 = nat \<lfloor>y + 1 / 2\<rfloor>"
  have s_pos: "0 < s" by (simp add: s_def)
  have lo: "10 powi e0 = 10 ^ f * s"
  proof -
    have "(10::real) powi (int f + (e0 - int f)) = 10 powi int f * 10 powi (e0 - int f)"
      by (rule power_int_add) simp
    then show ?thesis by (simp add: s_def)
  qed
  have hi: "10 powi (e0 + 1) = 10 ^ (f + 1) * s"
  proof -
    have "(10::real) powi (e0 + 1) = 10 powi e0 * 10 powi 1" by (rule power_int_add) simp
    with lo show ?thesis by simp
  qed
  from exponent10_bounds [OF assms(1)] have "10 ^ f * s \<le> x" "x < 10 ^ (f + 1) * s"
    unfolding e0_def [symmetric] lo hi by simp_all
  then have y_lo: "10 ^ f \<le> y" and y_hi: "y < 10 ^ (f + 1)"
    using s_pos by (simp_all add: y_def field_simps)
  have "of_int (10 ^ f) \<le> y + 1 / 2" using y_lo by simp
  then have fl_lo: "10 ^ f \<le> \<lfloor>y + 1 / 2\<rfloor>" by (simp only: le_floor_iff)
  have "y + 1 / 2 < of_int (10 ^ (f + 1)) + 1" using y_hi by simp
  then have "\<lfloor>y + 1 / 2\<rfloor> < 10 ^ (f + 1) + 1" by (simp only: floor_less_iff)
  then have fl_hi: "\<lfloor>y + 1 / 2\<rfloor> \<le> 10 ^ (f + 1)" by simp
  have fl_pos: "0 \<le> \<lfloor>y + 1 / 2\<rfloor>"
  proof -
    have "(0::int) \<le> 10 ^ f" by simp
    with fl_lo show ?thesis by linarith
  qed
  have n0_int: "int n0 = \<lfloor>y + 1 / 2\<rfloor>" using fl_pos by (simp add: n0_def)
  have n0_lo: "10 ^ f \<le> n0"
  proof -
    have "int (10 ^ f) \<le> int n0" using fl_lo n0_int by simp
    then show ?thesis by (simp only: of_nat_le_iff)
  qed
  have n0_hi: "n0 \<le> 10 ^ (f + 1)"
  proof -
    have "int n0 \<le> int (10 ^ (f + 1))" using fl_hi n0_int by simp
    then show ?thesis by (simp only: of_nat_le_iff)
  qed
  have "real n0 = of_int \<lfloor>y + 1 / 2\<rfloor>" using n0_int by (metis of_int_of_nat_eq)
  then have "\<bar>real n0 - y\<bar> \<le> 1 / 2" by linarith
  then have "\<bar>real n0 - y\<bar> * s \<le> 1 / 2 * s" using s_pos by (intro mult_right_mono) simp_all
  moreover have "\<bar>real n0 - y\<bar> * s = \<bar>x - real n0 * s\<bar>"
  proof -
    have "(real n0 - y) * s = real n0 * s - x" using s_pos by (simp add: y_def field_simps)
    then have "\<bar>(real n0 - y) * s\<bar> = \<bar>x - real n0 * s\<bar>" by simp
    then show ?thesis using s_pos by (simp add: abs_mult)
  qed
  ultimately have close: "\<bar>x - real n0 * s\<bar> \<le> s / 2" by simp
  have parts: "exp_parts f x = (if n0 = 10 ^ (f + 1) then (10 ^ f, e0 + 1) else (n0, e0))"
    by (simp add: exp_parts_def Let_def e0_def n0_def y_def s_def)
  show ?thesis
  proof (cases "n0 = 10 ^ (f + 1)")
    case True
    with parts assms(2) have ne: "n = 10 ^ f" "e = e0 + 1" by simp_all
    have "(10::real) powi (e0 + 1 - int f) = 10 powi (e0 - int f) * 10 powi 1"
      using power_int_add [of "10::real" "e0 - int f" 1] by (simp add: algebra_simps)
    then have s': "(10::real) powi (e - int f) = 10 * s" by (simp add: ne s_def)
    have eq: "real n * 10 powi (e - int f) = real n0 * s" unfolding s' by (simp add: ne True)
    have "\<bar>x - real n * 10 powi (e - int f)\<bar> \<le> s / 2" unfolding eq by (rule close)
    also have "s / 2 \<le> 10 powi (e - int f) / 2" unfolding s' using s_pos by simp
    finally have "\<bar>x - real n * 10 powi (e - int f)\<bar> \<le> 10 powi (e - int f) / 2" .
    then show ?thesis by (simp add: ne)
  next
    case False
    with parts assms(2) have ne: "n = n0" "e = e0" by simp_all
    from False n0_hi have "n0 < 10 ^ (f + 1)" by simp
    with n0_lo close show ?thesis by (simp add: ne s_def)
  qed
qed

lemma length_digits_of:
  "10 ^ k \<le> n \<Longrightarrow> n < 10 ^ Suc k \<Longrightarrow> length (digits_of n) = Suc k"
proof (induction k arbitrary: n)
  case 0
  then show ?case by (subst digits_of.simps) simp
next
  case (Suc k)
  from Suc.prems have "\<not> n < 10"
  proof -
    have "(10::nat) \<le> 10 ^ Suc k" by simp
    with Suc.prems(1) show ?thesis by linarith
  qed
  moreover have "10 ^ k \<le> n div 10" using Suc.prems(1) by (simp add: less_eq_div_iff_mult_less_eq)
  moreover have "n div 10 < 10 ^ Suc k" using Suc.prems(2) by (simp add: div_less_iff_less_mult)
  ultimately show ?case using Suc.IH [of "n div 10"] by (subst digits_of.simps) simp
qed

text \<open>
  Claim C4 as stated fails: \<open>toExponential(3)\<close> keeps 3 digits after the point, so 4
  significant digits. 12344 is rendered \<open>1.234e+4\<close>; with 3 significant digits it would be
  \<open>1.23e+4\<close>.
\<close>

theorem format_number_counterexample:
  "formatNumber 12344 = ''1.234e+4'' \<and> spec_significant_digits 3 12344 = ''1.23e+4''"
  by (simp add: formatNumber_def spec_significant_digits_def toExponential_def exp_parts_def
      exponent10_def exp10_up.simps exp_text_def digits_of.simps digit_char_def)

text \<open>
  Claim C4, as amended. For every nonzero \<open>x\<close> with \<open>|x| < 0.001\<close> or \<open>|x| > 10000\<close>,
  \<open>formatNumber\<close> renders \<open>x\<close> in exponential notation with 4 significant digits: a sign
  for a negative \<open>x\<close>, one digit, the point, three digits, \<open>e\<close>, the sign of the exponent
  and the exponent, where the four digits \<open>n\<close> and the exponent \<open>e\<close> give \<open>|x|\<close> to within
  half a unit of the last digit.
\<close>

theorem format_number_exponential:
  assumes "x \<noteq> 0" and "\<bar>x\<bar> < 0.001 \<or> \<bar>x\<bar> > 10000"
  shows "formatNumber x = spec_significant_digits 4 x
       \<and> (\<exists>n e. exp_parts 3 \<bar>x\<bar> = (n, e)
            \<and> formatNumber x = (if x < 0 then ''-'' else '''') @ take 1 (digits_of n) @ ''.''
                 @ drop 1 (digits_of n) @ ''e'' @ (if e \<ge> 0 then ''+'' else ''-'')
                 @ digits_of (nat \<bar>e\<bar>)
            \<and> length (digits_of n) = 4
            \<and> \<bar>\<bar>x\<bar> - of_nat n * 10 powi (e - 3)\<bar> \<le> 10 powi (e - 3) / 2)"
proof -
  obtain n e where parts: "exp_parts 3 \<bar>x\<bar> = (n, e)" by (cases "exp_parts 3 \<bar>x\<bar>")
  from assms(1) have "0 < \<bar>x\<bar>" by simp
  from exp_parts_bounds [OF this parts]
  have n: "10 ^ 3 \<le> n" "n < 10 ^ Suc 3"
    and close: "\<bar>\<bar>x\<bar> - of_nat n * 10 powi (e - 3)\<bar> \<le> 10 powi (e - 3) / 2"
    by simp_all
  from n have len: "length (digits_of n) = 4" using length_digits_of [of 3 n] by simp
  have fmt: "formatNumber x = toExponential 3 x"
    using assms by (simp add: formatNumber_def)
  have shape: "toExponential 3 x = (if x < 0 then ''-'' else '''') @ take 1 (digits_of n) @ ''.''
                 @ drop 1 (digits_of n) @ ''e'' @ (if e \<ge> 0 then ''+'' else ''-'')
                 @ digits_of (nat \<bar>e\<bar>)"
    using assms(1) parts by (simp add: toExponential_def exp_text_def)
  from fmt shape parts len close show ?thesis
    by (auto simp: spec_significant_digits_def)
qed

theorem format_number_exponential_witness:
  "(12344::real) \<noteq> 0 \<and> (\<bar>12344::real\<bar> < 0.001 \<or> \<bar>12344::real\<bar> > 10000)
   \<and> exp_parts 3 \<bar>12344\<bar> = (1234, 4)
   \<and> formatNumber 12344 = ''1.234e+4''
   \<and> length (digits_of 1234) = 4"
  using format_number_exponential [of 12344]
  by (simp add: formatNumber_def toExponential_def exp_parts_def
      exponent10_def exp10_up.simps exp_text_def digits_of.simps digit_char_def)

end
